theory Spec2Isabelle
  imports Main "HOL-Library.Word" "HOL-Library.AList"
begin

section \<open>The example client of the inference server (src/servers/simple.cc)\<close>

text \<open>
  The client hands the inference engine three callbacks (\<open>ResponseAlloc\<close>,
  \<open>ResponseRelease\<close>, \<open>InferComplete\<close>) and drives it from \<open>main\<close>. The engine is a
  collaborator behind a C interface: its answers are inputs of the model, the client's
  code is embedded as functions on an explicit process state.
\<close>

subsection \<open>Values of the engine's interface\<close>

text \<open>A pointer is an address; \<open>nullptr\<close> is address 0.\<close>

type_synonym addr = nat

abbreviation (input) nullptr :: addr where
  "nullptr \<equiv> 0"

text \<open>
  Modelled from the spec: the memory locality enumeration of trtserver.h, which is not
  among the sources. Host memory is \<open>TRTSERVER_MEMORY_CPU\<close>; the enumeration is extended
  by accelerator memory.
\<close>

datatype TRTSERVER_Memory_Type = TRTSERVER_MEMORY_CPU | TRTSERVER_MEMORY_GPU

text \<open>A \<open>TRTSERVER_Error\<close> object: its code string and its message. No error is \<open>None\<close>.\<close>

datatype TRTSERVER_Error = Engine_Error string string

text \<open>
  What the engine reports for one output tensor: the bytes of the buffer (its byte size is
  their number) and the memory type.
\<close>

record output_data =
  od_content :: "8 word list"
  od_memory_type :: TRTSERVER_Memory_Type

text \<open>
  A \<open>TRTSERVER_Protobuf\<close> handle answers two calls: serialising it, and deleting it.
\<close>

record protobuf =
  pb_serialize :: "TRTSERVER_Error + string"
  pb_delete :: "TRTSERVER_Error option"

text \<open>
  A \<open>TRTSERVER_InferenceResponse\<close> handle answers the calls \<open>main\<close> makes on it: its
  status, its header, the data of an output by name, and its deletion.
\<close>

record response =
  resp_status :: "TRTSERVER_Error option"
  resp_header :: "TRTSERVER_Error + protobuf"
  resp_output :: "string \<Rightarrow> TRTSERVER_Error + output_data"
  resp_delete :: "TRTSERVER_Error option"

subsection \<open>The process state\<close>

text \<open>
  Heap objects the client allocates: a \<open>malloc\<close>ed block of some bytes, a
  \<open>std::string\<close>, and a \<open>std::promise\<close> with the identifier of the shared state
  that its future also refers to.
\<close>

datatype obj = Buffer nat | Str string | Promise nat

text \<open>The memory operations, in the order they happen.\<close>

datatype event =
    Malloc nat addr
  | Free addr
  | New_String string addr
  | Delete_String addr
  | New_Promise addr
  | Set_Value addr response
  | Delete_Promise addr

text \<open>
  Engine-owned handles the client holds; the status protobuf of the model is a new handle
  at each query, numbered by the query.
\<close>

datatype handle =
    H_ServerOptions
  | H_Server
  | H_ServerStatus
  | H_ModelStatus nat
  | H_Allocator
  | H_RequestProvider
  | H_Response
  | H_ResponseHeader

record state =
  objs :: "(addr \<times> obj) list"
  avail :: nat
  shared :: "(nat \<times> response option) list"
  trace :: "event list"
  info_log :: "string list"
  error_log :: "string list"
  held :: "handle list"
  slept_ms :: nat

text \<open>Undefined behaviour and uncaught exceptions of the memory operations.\<close>

datatype fault =
    Invalid_Free
  | Invalid_Delete
  | Invalid_Dereference
  | Promise_Already_Satisfied
  | Out_Of_Bounds_Read

subsection \<open>Printing\<close>

function show_base :: "nat \<Rightarrow> nat \<Rightarrow> string" where
  "show_base b n =
     (if b < 2 \<or> 16 < b then []
      else if n < b then [''0123456789abcdef'' ! n]
      else show_base b (n div b) @ [''0123456789abcdef'' ! (n mod b)])"
  by pat_completeness auto
termination
  by (relation "measure snd") auto

declare show_base.simps [simp del]

definition show_nat :: "nat \<Rightarrow> string" where
  "show_nat n = show_base 10 n"

definition show_int :: "int \<Rightarrow> string" where
  "show_int i = (if i < 0 then CHR ''-'' # show_nat (nat (- i)) else show_nat (nat i))"

text \<open>A pointer is printed in hexadecimal behind \<open>0x\<close>; the null pointer is printed as \<open>0\<close>.\<close>

definition show_ptr :: "addr \<Rightarrow> string" where
  "show_ptr a = (if a = nullptr then ''0'' else ''0x'' @ show_base 16 a)"

text \<open>
  Modelled from the spec: the logging macros \<open>LOG_INFO\<close> and \<open>LOG_ERROR\<close>, whose
  header is not among the sources. \<open>LOG_ERROR\<close> writes a line to the error stream,
  \<open>LOG_INFO\<close> a line of diagnostic logging.
\<close>

definition LOG_INFO :: "string \<Rightarrow> state \<Rightarrow> state" where
  "LOG_INFO msg s = s\<lparr>info_log := info_log s @ [msg]\<rparr>"

definition LOG_ERROR :: "string \<Rightarrow> state \<Rightarrow> state" where
  "LOG_ERROR msg s = s\<lparr>error_log := error_log s @ [msg]\<rparr>"

subsection \<open>Memory operations\<close>

text \<open>A fresh address: not null, and above every live object.\<close>

definition fresh :: "(nat \<times> 'a) list \<Rightarrow> nat" where
  "fresh h = Suc (fold max (map fst h) 0)"

text \<open>
  \<open>malloc\<close> returns null when the request exceeds what is available; \<open>operator new\<close>
  reports exhaustion by an exception that nothing here catches, and is taken to succeed.
\<close>

definition malloc :: "nat \<Rightarrow> state \<Rightarrow> addr \<times> state" where
  "malloc n s =
     (if n \<le> avail s
      then (let a = fresh (objs s)
            in (a, s\<lparr>objs := (a, Buffer n) # objs s, avail := avail s - n,
                     trace := trace s @ [Malloc n a]\<rparr>))
      else (nullptr, s))"

definition free :: "addr \<Rightarrow> state \<Rightarrow> fault + state" where
  "free a s =
     (if a = nullptr then Inr (s\<lparr>trace := trace s @ [Free a]\<rparr>)
      else case map_of (objs s) a of
             Some (Buffer n) \<Rightarrow>
               Inr (s\<lparr>objs := AList.delete a (objs s), avail := avail s + n,
                      trace := trace s @ [Free a]\<rparr>)
           | _ \<Rightarrow> Inl Invalid_Free)"

definition new_string :: "string \<Rightarrow> state \<Rightarrow> addr \<times> state" where
  "new_string t s =
     (let a = fresh (objs s)
      in (a, s\<lparr>objs := (a, Str t) # objs s, trace := trace s @ [New_String t a]\<rparr>))"

definition deref_string :: "addr \<Rightarrow> state \<Rightarrow> fault + string" where
  "deref_string a s =
     (case map_of (objs s) a of Some (Str t) \<Rightarrow> Inr t | _ \<Rightarrow> Inl Invalid_Dereference)"

definition delete_string :: "addr \<Rightarrow> state \<Rightarrow> fault + state" where
  "delete_string a s =
     (if a = nullptr then Inr s
      else case map_of (objs s) a of
             Some (Str t) \<Rightarrow>
               Inr (s\<lparr>objs := AList.delete a (objs s), trace := trace s @ [Delete_String a]\<rparr>)
           | _ \<Rightarrow> Inl Invalid_Delete)"

text \<open>\<open>new std::promise\<close>: the promise object and its shared state, not yet set.\<close>

definition new_promise :: "state \<Rightarrow> addr \<times> state" where
  "new_promise s =
     (let a = fresh (objs s); c = fresh (shared s)
      in (a, s\<lparr>objs := (a, Promise c) # objs s, shared := (c, None) # shared s,
               trace := trace s @ [New_Promise a]\<rparr>))"

text \<open>
  \<open>p->set_value(v)\<close>: stores the value in the shared state; on a shared state that has
  a value already it throws \<open>std::future_error\<close>.
\<close>

definition set_value :: "addr \<Rightarrow> response \<Rightarrow> state \<Rightarrow> fault + state" where
  "set_value p v s =
     (case map_of (objs s) p of
        Some (Promise c) \<Rightarrow>
          (case map_of (shared s) c of
             Some None \<Rightarrow>
               Inr (s\<lparr>shared := AList.update c (Some v) (shared s),
                      trace := trace s @ [Set_Value p v]\<rparr>)
           | Some (Some w) \<Rightarrow> Inl Promise_Already_Satisfied
           | None \<Rightarrow> Inl Invalid_Dereference)
      | _ \<Rightarrow> Inl Invalid_Dereference)"

definition delete_promise :: "addr \<Rightarrow> state \<Rightarrow> fault + state" where
  "delete_promise p s =
     (if p = nullptr then Inr s
      else case map_of (objs s) p of
             Some (Promise c) \<Rightarrow>
               Inr (s\<lparr>objs := AList.delete p (objs s), trace := trace s @ [Delete_Promise p]\<rparr>)
           | _ \<Rightarrow> Inl Invalid_Delete)"

subsection \<open>The allocator callbacks\<close>

text \<open>
  \<open>ResponseAlloc\<close> returns the error pointer and, through \<open>*buffer\<close> and
  \<open>*buffer_userp\<close>, the buffer and the token.
\<close>

definition ResponseAlloc ::
  "handle \<Rightarrow> string \<Rightarrow> nat \<Rightarrow> TRTSERVER_Memory_Type \<Rightarrow> int \<Rightarrow> addr \<Rightarrow> state
     \<Rightarrow> TRTSERVER_Error option \<times> addr \<times> addr \<times> state" where
  "ResponseAlloc allocator tensor_name byte_size memory_type memory_type_id userp s =
     (if byte_size = 0 \<or> memory_type = TRTSERVER_MEMORY_CPU
      then (let (buffer, s1) = (if byte_size = 0 then (nullptr, s) else malloc byte_size s);
                (buffer_userp, s2) = new_string tensor_name s1;
                s3 = LOG_INFO (''allocated '' @ show_nat byte_size
                               @ '' bytes for result tensor '' @ tensor_name) s2
            in (None, buffer, buffer_userp, s3))
      else (None, nullptr, nullptr,
            LOG_INFO (''failed to allocated '' @ show_nat byte_size
                      @ '' bytes for result tensor '' @ tensor_name) s))"

definition ResponseRelease ::
  "handle \<Rightarrow> addr \<Rightarrow> addr \<Rightarrow> nat \<Rightarrow> TRTSERVER_Memory_Type \<Rightarrow> int \<Rightarrow> state
     \<Rightarrow> fault + (TRTSERVER_Error option \<times> state)" where
  "ResponseRelease allocator buffer buffer_userp byte_size memory_type memory_type_id s =
     (let (name, s1) = (if buffer_userp \<noteq> nullptr then (buffer_userp, s)
                        else new_string ''<unknown>'' s)
      in case deref_string name s1 of
           Inl f \<Rightarrow> Inl f
         | Inr text \<Rightarrow>
             (let s2 = LOG_INFO (''Releasing buffer '' @ show_ptr buffer @ '' of size ''
                                 @ show_nat byte_size @ '' for result '' @ [CHR 0x27]
                                 @ text @ [CHR 0x27]) s1
              in case free buffer s2 of
                   Inl f \<Rightarrow> Inl f
                 | Inr s3 \<Rightarrow>
                     (case delete_string name s3 of
                        Inl f \<Rightarrow> Inl f
                      | Inr s4 \<Rightarrow> Inr (None, s4))))"

text \<open>The parts of what \<open>ResponseAlloc\<close> returns.\<close>

definition alloc_error :: "TRTSERVER_Error option \<times> addr \<times> addr \<times> state \<Rightarrow> TRTSERVER_Error option" where
  "alloc_error r = fst r"

definition alloc_buffer :: "TRTSERVER_Error option \<times> addr \<times> addr \<times> state \<Rightarrow> addr" where
  "alloc_buffer r = fst (snd r)"

definition alloc_token :: "TRTSERVER_Error option \<times> addr \<times> addr \<times> state \<Rightarrow> addr" where
  "alloc_token r = fst (snd (snd r))"

definition alloc_state :: "TRTSERVER_Error option \<times> addr \<times> addr \<times> state \<Rightarrow> state" where
  "alloc_state r = snd (snd (snd r))"

subsection \<open>The completion callback\<close>

definition InferComplete :: "handle \<Rightarrow> response \<Rightarrow> addr \<Rightarrow> state \<Rightarrow> fault + state" where
  "InferComplete server resp userp s =
     (case set_value userp resp s of
        Inl f \<Rightarrow> Inl f
      | Inr s1 \<Rightarrow> delete_promise userp s1)"



section \<open>The main program\<close>

subsection \<open>Outcomes and statements\<close>

text \<open>
  A statement either lets the program run on, or ends the process with an exit status, or
  runs into one of the faults above.
\<close>

datatype outcome = Running state | Exit int state | Crash fault state

type_synonym stmt = "state \<Rightarrow> outcome"

fun seq :: "stmt list \<Rightarrow> stmt" where
  "seq [] s = Running s"
| "seq (c # cs) s =
     (case c s of
        Running s' \<Rightarrow> seq cs s'
      | Exit n s' \<Rightarrow> Exit n s'
      | Crash f s' \<Rightarrow> Crash f s')"

definition log_info :: "string \<Rightarrow> stmt" where
  "log_info msg s = Running (LOG_INFO msg s)"

definition acquire :: "handle \<Rightarrow> stmt" where
  "acquire h s = Running (s\<lparr>held := h # held s\<rparr>)"

definition release :: "handle \<Rightarrow> stmt" where
  "release h s = Running (s\<lparr>held := remove1 h (held s)\<rparr>)"

definition sleep_for :: "nat \<Rightarrow> state \<Rightarrow> state" where
  "sleep_for ms s = s\<lparr>slept_ms := slept_ms s + ms\<rparr>"

definition error_text :: "TRTSERVER_Error \<Rightarrow> string" where
  "error_text e = (case e of Engine_Error code msg \<Rightarrow> code @ '' - '' @ msg)"

text \<open>
  Modelled from the spec: the macros \<open>FAIL\<close> and \<open>FAIL_IF_ERR\<close> of
  src/servers/common.h, which is not among the sources. A failure writes a diagnostic to
  the error stream and ends the process with status 1; \<open>FAIL_IF_ERR\<close> does so when the
  engine call returned an error, and nothing otherwise.
\<close>

definition FAIL :: "string \<Rightarrow> stmt" where
  "FAIL msg s = Exit 1 (LOG_ERROR (''error: '' @ msg) s)"

definition FAIL_IF_ERR :: "TRTSERVER_Error option \<Rightarrow> string \<Rightarrow> stmt" where
  "FAIL_IF_ERR err msg s =
     (case err of
        None \<Rightarrow> Running s
      | Some e \<Rightarrow> Exit 1 (LOG_ERROR (''error: '' @ msg @ '': '' @ error_text e) s))"

definition Usage :: "string \<Rightarrow> string \<Rightarrow> stmt" where
  "Usage argv0 msg s =
     (let s1 = (if msg \<noteq> [] then LOG_ERROR msg s else s);
          s2 = LOG_ERROR (''Usage: '' @ argv0 @ '' [options]'') s1;
          s3 = LOG_ERROR (CHR 0x09 # ''-r [model repository absolute path]'') s2
      in Exit 1 s3)"

subsection \<open>Protocol buffer messages\<close>

text \<open>
  Modelled from the spec: the messages of server_status.proto and api.proto, which are not
  among the sources. The status of a server is a table from model name to version to ready
  state; a request header carries an id, a batch size and the names of the inputs and of
  the outputs, in order.
\<close>

datatype ModelReadyState =
  MODEL_UNKNOWN | MODEL_READY | MODEL_UNAVAILABLE | MODEL_LOADING | MODEL_UNLOADING

record ModelVersionStatus =
  ready_state :: ModelReadyState

record ModelStatus =
  version_status :: "int \<rightharpoonup> ModelVersionStatus"

record ServerStatus =
  model_status :: "string \<rightharpoonup> ModelStatus"

fun ModelReadyState_Name :: "ModelReadyState \<Rightarrow> string" where
  "ModelReadyState_Name MODEL_UNKNOWN = ''MODEL_UNKNOWN''"
| "ModelReadyState_Name MODEL_READY = ''MODEL_READY''"
| "ModelReadyState_Name MODEL_UNAVAILABLE = ''MODEL_UNAVAILABLE''"
| "ModelReadyState_Name MODEL_LOADING = ''MODEL_LOADING''"
| "ModelReadyState_Name MODEL_UNLOADING = ''MODEL_UNLOADING''"

record InferRequestHeader =
  hdr_id :: "64 word"
  hdr_batch_size :: "32 word"
  hdr_input :: "string list"
  hdr_output :: "string list"

definition empty_header :: InferRequestHeader where
  "empty_header = \<lparr>hdr_id = 0, hdr_batch_size = 0, hdr_input = [], hdr_output = []\<rparr>"

definition set_id :: "64 word \<Rightarrow> InferRequestHeader \<Rightarrow> InferRequestHeader" where
  "set_id v h = h\<lparr>hdr_id := v\<rparr>"

definition set_batch_size :: "32 word \<Rightarrow> InferRequestHeader \<Rightarrow> InferRequestHeader" where
  "set_batch_size v h = h\<lparr>hdr_batch_size := v\<rparr>"

text \<open>\<open>add_input()\<close> followed by \<open>set_name\<close> on the new element.\<close>

definition add_input :: "string \<Rightarrow> InferRequestHeader \<Rightarrow> InferRequestHeader" where
  "add_input name h = h\<lparr>hdr_input := hdr_input h @ [name]\<rparr>"

definition add_output :: "string \<Rightarrow> InferRequestHeader \<Rightarrow> InferRequestHeader" where
  "add_output name h = h\<lparr>hdr_output := hdr_output h @ [name]\<rparr>"

text \<open>The header that \<open>main\<close> builds.\<close>

definition request_header :: InferRequestHeader where
  "request_header =
     add_output ''OUTPUT1'' (add_output ''OUTPUT0''
       (add_input ''INPUT1'' (add_input ''INPUT0''
         (set_batch_size 1 (set_id 123 empty_header)))))"


subsection \<open>Serialising a request header\<close>

text \<open>
  Modelled from the spec: \<open>SerializeToString\<close> and the parser of the consuming side are
  generated from api.proto, which is not among the sources. The encoding is the compact
  binary one of protocol buffers: numbers as base-128 varints, every field behind a key
  made of its number and wire type, strings and nested messages preceded by their length,
  fields with the default value left out. Field numbers are those of the schema (batch
  size 1, inputs 2, outputs 3, id 5; the name of an input or output 1).
\<close>

function put_varint :: "nat \<Rightarrow> string" where
  "put_varint n =
     (if n < 128 then [char_of n] else char_of (128 + n mod 128) # put_varint (n div 128))"
  by pat_completeness auto
termination
  by (relation "measure id") auto

declare put_varint.simps [simp del]

definition put_key :: "nat \<Rightarrow> nat \<Rightarrow> string" where
  "put_key field wire = put_varint (8 * field + wire)"

definition put_uint :: "nat \<Rightarrow> nat \<Rightarrow> string" where
  "put_uint field v = (if v = 0 then [] else put_key field 0 @ put_varint v)"

definition put_bytes :: "nat \<Rightarrow> string \<Rightarrow> string" where
  "put_bytes field b = put_key field 2 @ put_varint (length b) @ b"

definition put_name :: "string \<Rightarrow> string" where
  "put_name name = (if name = [] then [] else put_bytes 1 name)"

definition SerializeToString :: "InferRequestHeader \<Rightarrow> string" where
  "SerializeToString h =
     put_uint 1 (unat (hdr_batch_size h))
     @ concat (map (\<lambda>name. put_bytes 2 (put_name name)) (hdr_input h))
     @ concat (map (\<lambda>name. put_bytes 3 (put_name name)) (hdr_output h))
     @ put_uint 5 (unat (hdr_id h))"

fun get_varint :: "string \<Rightarrow> (nat \<times> string) option" where
  "get_varint [] = None"
| "get_varint (c # cs) =
     (if (of_char c :: nat) < 128 then Some (of_char c, cs)
      else case get_varint cs of
             None \<Rightarrow> None
           | Some (n, rest) \<Rightarrow> Some (of_char c - 128 + 128 * n, rest))"

datatype field_value = Varint nat | Bytes string

function get_fields :: "string \<Rightarrow> (nat \<times> field_value) list option" where
  "get_fields bs =
     (if bs = [] then Some []
      else case get_varint bs of
             None \<Rightarrow> None
           | Some (key, r1) \<Rightarrow>
               (case get_varint r1 of
                  None \<Rightarrow> None
                | Some (v, r2) \<Rightarrow>
                    if key mod 8 = 0
                    then map_option ((#) (key div 8, Varint v)) (get_fields r2)
                    else if key mod 8 = 2
                    then (if length r2 < v then None
                          else map_option ((#) (key div 8, Bytes (take v r2)))
                                 (get_fields (drop v r2)))
                    else None))"
  by pat_completeness auto
termination
proof (relation "measure length")
  have shorter: "length r < length bs" if "get_varint bs = Some (n, r)" for bs n r
    using that by (induction bs arbitrary: n r) (auto split: if_splits option.splits)
  show "wf (measure length)" by simp
  show "(r2, bs) \<in> measure length"
    if "get_varint bs = Some x2" "(key, r1) = x2" "get_varint r1 = Some x2a" "(v, r2) = x2a"
    for bs x2 key r1 x2a v r2
    using that shorter [of bs key r1] shorter [of r1 v r2] by simp
  show "(drop v r2, bs) \<in> measure length"
    if "get_varint bs = Some x2" "(key, r1) = x2" "get_varint r1 = Some x2a" "(v, r2) = x2a"
    for bs x2 key r1 x2a v r2
    using that shorter [of bs key r1] shorter [of r1 v r2] by simp
qed

declare get_fields.simps [simp del]

definition get_name :: "string \<Rightarrow> string option" where
  "get_name bs =
     (case get_fields bs of
        None \<Rightarrow> None
      | Some fs \<Rightarrow>
          Some (fold (\<lambda>(field, v) name.
                        case v of Bytes b \<Rightarrow> (if field = 1 then b else name)
                                | Varint n \<Rightarrow> name) fs []))"

definition merge_field ::
  "nat \<times> field_value \<Rightarrow> InferRequestHeader option \<Rightarrow> InferRequestHeader option" where
  "merge_field fv ho =
     (case ho of
        None \<Rightarrow> None
      | Some h \<Rightarrow>
          (case snd fv of
             Varint n \<Rightarrow>
               (if fst fv = 1 then Some (set_batch_size (of_nat n) h)
                else if fst fv = 5 then Some (set_id (of_nat n) h)
                else Some h)
           | Bytes b \<Rightarrow>
               (if fst fv = 2 then map_option (\<lambda>name. add_input name h) (get_name b)
                else if fst fv = 3 then map_option (\<lambda>name. add_output name h) (get_name b)
                else Some h)))"

definition ParseFromString :: "string \<Rightarrow> InferRequestHeader option" where
  "ParseFromString bs =
     (case get_fields bs of
        None \<Rightarrow> None
      | Some fs \<Rightarrow> fold merge_field fs (Some empty_header))"


subsection \<open>The engine\<close>

text \<open>
  What the engine answers to each call of \<open>main\<close>. The two health queries and the model
  status query are made repeatedly and are answered by the number of the attempt. A
  submission is rejected with an error, or accepted; an accepted one is completed by one
  call of the completion callback with a response, or never.
\<close>

datatype submission = Rejected TRTSERVER_Error | Accepted "response option"

text \<open>
  The parsers and printers of the status and response header messages are generated code
  that is not among the sources; they are taken as given, with the engine.
\<close>

record engine =
  TRTSERVER_ServerOptionsNew :: "TRTSERVER_Error option"
  TRTSERVER_ServerOptionsSetModelRepositoryPath :: "string \<Rightarrow> TRTSERVER_Error option"
  TRTSERVER_ServerNew :: "TRTSERVER_Error option"
  TRTSERVER_ServerOptionsDelete :: "TRTSERVER_Error option"
  TRTSERVER_ServerIsLive :: "nat \<Rightarrow> TRTSERVER_Error + bool"
  TRTSERVER_ServerIsReady :: "nat \<Rightarrow> TRTSERVER_Error + bool"
  TRTSERVER_ServerStatus :: "TRTSERVER_Error + protobuf"
  TRTSERVER_ServerModelStatus :: "nat \<Rightarrow> string \<Rightarrow> TRTSERVER_Error + protobuf"
  TRTSERVER_ResponseAllocatorNew :: "TRTSERVER_Error option"
  TRTSERVER_InferenceRequestProviderNew :: "string \<Rightarrow> int \<Rightarrow> string \<Rightarrow> TRTSERVER_Error option"
  TRTSERVER_InferenceRequestProviderSetInputData ::
    "string \<Rightarrow> 32 word list \<Rightarrow> nat \<Rightarrow> TRTSERVER_Memory_Type \<Rightarrow> TRTSERVER_Error option"
  TRTSERVER_ServerInferAsync :: submission
  TRTSERVER_InferenceRequestProviderDelete :: "TRTSERVER_Error option"
  TRTSERVER_ResponseAllocatorDelete :: "TRTSERVER_Error option"
  ServerStatus_ParseFromArray :: "string \<Rightarrow> ServerStatus option"
  ServerStatus_DebugString :: "ServerStatus \<Rightarrow> string"
  InferResponseHeader_ParseFromArray :: "string \<Rightarrow> string option"

subsection \<open>The command line\<close>

text \<open>
  What \<open>getopt\<close> returns for the option string \<open>r:\<close>, one call after the other:
  \<open>-r\<close> with its argument, or \<open>?\<close> for anything else.
\<close>

datatype getopt_result = Opt_r string | Opt_unknown

fun parse_commandline :: "string \<Rightarrow> getopt_result list \<Rightarrow> string \<Rightarrow> state \<Rightarrow> outcome + string" where
  "parse_commandline argv0 [] model_repository_path s = Inr model_repository_path"
| "parse_commandline argv0 (Opt_r optarg # rest) model_repository_path s =
     parse_commandline argv0 rest optarg s"
| "parse_commandline argv0 (Opt_unknown # rest) model_repository_path s =
     Inl (Usage argv0 [] s)"

definition check_path :: "string \<Rightarrow> string \<Rightarrow> stmt" where
  "check_path argv0 model_repository_path s =
     (if model_repository_path = []
      then Usage argv0 ''-r must be used to specify model repository path'' s
      else Running s)"

subsection \<open>Starting the server\<close>

definition create_server :: "engine \<Rightarrow> string \<Rightarrow> stmt" where
  "create_server E model_repository_path =
     seq [FAIL_IF_ERR (TRTSERVER_ServerOptionsNew E) ''creating server options'',
          acquire H_ServerOptions,
          FAIL_IF_ERR (TRTSERVER_ServerOptionsSetModelRepositoryPath E model_repository_path)
            ''setting model repository path'',
          FAIL_IF_ERR (TRTSERVER_ServerNew E) ''creating server'',
          acquire H_Server,
          FAIL_IF_ERR (TRTSERVER_ServerOptionsDelete E) ''deleting server options'',
          release H_ServerOptions]"

definition show_bool :: "bool \<Rightarrow> string" where
  "show_bool b = (if b then ''1'' else ''0'')"

text \<open>The loop that waits for the server to be live and ready, from its counter on.\<close>

function health_loop :: "engine \<Rightarrow> nat \<Rightarrow> stmt" where
  "health_loop E health_iters s =
     (case TRTSERVER_ServerIsLive E health_iters of
        Inl e \<Rightarrow> FAIL_IF_ERR (Some e) ''unable to get server liveness'' s
      | Inr live \<Rightarrow>
          (case TRTSERVER_ServerIsReady E health_iters of
             Inl e \<Rightarrow> FAIL_IF_ERR (Some e) ''unable to get server readiness'' s
           | Inr ready \<Rightarrow>
               (let s1 = LOG_INFO (''Server Health: live '' @ show_bool live
                                   @ '', ready '' @ show_bool ready) s
                in if live \<and> ready then Running s1
                   else if 10 \<le> Suc health_iters
                   then FAIL ''failed to find healthy inference server'' s1
                   else health_loop E (Suc health_iters) (sleep_for 500 s1))))"
  by pat_completeness auto
termination
  by (relation "measure (\<lambda>(E, health_iters, s). 10 - health_iters)") auto

declare health_loop.simps [simp del]

definition print_server_status :: "engine \<Rightarrow> stmt" where
  "print_server_status E s =
     (case TRTSERVER_ServerStatus E of
        Inl e \<Rightarrow> FAIL_IF_ERR (Some e) ''unable to get server status protobuf'' s
      | Inr server_status_protobuf \<Rightarrow>
          (let s1 = s\<lparr>held := H_ServerStatus # held s\<rparr>
           in case pb_serialize server_status_protobuf of
                Inl e \<Rightarrow> FAIL_IF_ERR (Some e) ''unable to serialize server status protobuf'' s1
              | Inr buffer \<Rightarrow>
                  (case ServerStatus_ParseFromArray E buffer of
                     None \<Rightarrow> FAIL ''error: failed to parse server status'' s1
                   | Some server_status \<Rightarrow>
                       seq [log_info ''Server Status:'',
                            log_info (ServerStatus_DebugString E server_status),
                            FAIL_IF_ERR (pb_delete server_status_protobuf)
                              ''deleting status protobuf'',
                            release H_ServerStatus] s1)))"

subsection \<open>Waiting for the model\<close>

text \<open>
  The loop that waits for version 1 of the model \<open>simple\<close> to be ready, from its
  \<open>k\<close>-th query on. It has no counter; a run of it that never ends has no outcome.
\<close>

partial_function (option) model_loop :: "engine \<Rightarrow> nat \<Rightarrow> state \<Rightarrow> outcome option" where
  "model_loop E k s =
     (case TRTSERVER_ServerModelStatus E k ''simple'' of
        Inl e \<Rightarrow> Some (FAIL_IF_ERR (Some e) ''unable to get model status protobuf'' s)
      | Inr model_status_protobuf \<Rightarrow>
          (let s1 = s\<lparr>held := H_ModelStatus k # held s\<rparr>
           in case pb_serialize model_status_protobuf of
                Inl e \<Rightarrow>
                  Some (FAIL_IF_ERR (Some e) ''unable to serialize model status protobuf'' s1)
              | Inr buffer \<Rightarrow>
                  (case ServerStatus_ParseFromArray E buffer of
                     None \<Rightarrow> Some (FAIL ''error: failed to parse model status'' s1)
                   | Some status \<Rightarrow>
                       (case model_status status ''simple'' of
                          None \<Rightarrow>
                            Some (FAIL (''unable to find status for model '' @ [CHR 0x27]
                                        @ ''simple'' @ [CHR 0x27]) s1)
                        | Some itr \<Rightarrow>
                            (case version_status itr 1 of
                               None \<Rightarrow>
                                 Some (FAIL (''unable to find version 1 status for model ''
                                             @ [CHR 0x27] @ ''simple'' @ [CHR 0x27]) s1)
                             | Some vitr \<Rightarrow>
                                 (let s2 = LOG_INFO ([CHR 0x27] @ ''simple'' @ [CHR 0x27]
                                                     @ '' model is ''
                                                     @ ModelReadyState_Name (ready_state vitr)) s1
                                  in if ready_state vitr = MODEL_READY then Some (Running s2)
                                     else (case pb_delete model_status_protobuf of
                                             Some e \<Rightarrow>
                                               Some (FAIL_IF_ERR (Some e)
                                                       ''deleting status protobuf'' s2)
                                           | None \<Rightarrow>
                                               model_loop E (Suc k)
                                                 (sleep_for 500
                                                    (s2\<lparr>held := remove1 (H_ModelStatus k)
                                                                   (held s2)\<rparr>)))))))))"


declare model_loop.simps [code]

subsection \<open>The request\<close>

definition input0 :: string where
  "input0 = hdr_input request_header ! 0"

definition input1 :: string where
  "input1 = hdr_input request_header ! 1"

definition output0 :: string where
  "output0 = hdr_output request_header ! 0"

definition output1 :: string where
  "output1 = hdr_output request_header ! 1"

text \<open>The loop that fills the two input vectors of 16 elements.\<close>

function fill_inputs :: "nat \<Rightarrow> 32 word list \<times> 32 word list \<Rightarrow> 32 word list \<times> 32 word list" where
  "fill_inputs i (v0, v1) =
     (if i < 16 then fill_inputs (Suc i) (v0[i := of_nat i], v1[i := 1]) else (v0, v1))"
  by pat_completeness auto
termination
  by (relation "measure (\<lambda>(i, v). 16 - i)") auto

definition input0_data :: "32 word list" where
  "input0_data = fst (fill_inputs 0 (replicate 16 0, replicate 16 0))"

definition input1_data :: "32 word list" where
  "input1_data = snd (fill_inputs 0 (replicate 16 0, replicate 16 0))"

definition setup_request :: "engine \<Rightarrow> stmt" where
  "setup_request E =
     seq [FAIL_IF_ERR (TRTSERVER_ResponseAllocatorNew E) ''creating response allocator'',
          acquire H_Allocator,
          FAIL_IF_ERR (TRTSERVER_InferenceRequestProviderNew E ''simple'' (- 1)
                         (SerializeToString request_header))
            ''creating inference request provider'',
          acquire H_RequestProvider,
          FAIL_IF_ERR (TRTSERVER_InferenceRequestProviderSetInputData E input0 input0_data
                         (length input0_data * 4) TRTSERVER_MEMORY_CPU)
            ''assigning INPUT0 data'',
          FAIL_IF_ERR (TRTSERVER_InferenceRequestProviderSetInputData E input1 input1_data
                         (length input1_data * 4) TRTSERVER_MEMORY_CPU)
            ''assigning INPUT1 data'']"

subsection \<open>Reading the response\<close>

definition print_response_header :: "engine \<Rightarrow> response \<Rightarrow> stmt" where
  "print_response_header E resp s =
     (case resp_header resp of
        Inl e \<Rightarrow> FAIL_IF_ERR (Some e) ''unable to get response header protobuf'' s
      | Inr response_protobuf \<Rightarrow>
          (let s1 = s\<lparr>held := H_ResponseHeader # held s\<rparr>
           in case pb_serialize response_protobuf of
                Inl e \<Rightarrow>
                  FAIL_IF_ERR (Some e) ''unable to serialize response header protobuf'' s1
              | Inr buffer \<Rightarrow>
                  (case InferResponseHeader_ParseFromArray E buffer of
                     None \<Rightarrow> FAIL ''error: failed to parse response header'' s1
                   | Some response_header \<Rightarrow>
                       seq [log_info (''Model '' @ [CHR 0x22] @ ''simple'' @ [CHR 0x22]
                                      @ '' response header:''),
                            log_info response_header,
                            FAIL_IF_ERR (pb_delete response_protobuf)
                              ''deleting response protobuf'',
                            release H_ResponseHeader] s1)))"

definition memory_type_number :: "TRTSERVER_Memory_Type \<Rightarrow> nat" where
  "memory_type_number m = (case m of TRTSERVER_MEMORY_CPU \<Rightarrow> 0 | TRTSERVER_MEMORY_GPU \<Rightarrow> 1)"

text \<open>The two checks made on each output: its byte size, then its memory type.\<close>

definition check_output_meta :: "string \<Rightarrow> output_data \<Rightarrow> stmt" where
  "check_output_meta var out s =
     (if length (od_content out) \<noteq> 16 * 4
      then FAIL (''unexpected '' @ var @ '' byte-size, expected '' @ show_nat (16 * 4)
                 @ '', got '' @ show_nat (length (od_content out))) s
      else if od_memory_type out \<noteq> TRTSERVER_MEMORY_CPU
      then FAIL (''unexpected '' @ var @ '' memory type, expected to be allocated ''
                 @ ''on CPU memory ('' @ show_nat (memory_type_number TRTSERVER_MEMORY_CPU)
                 @ ''), got ('' @ show_nat (memory_type_number (od_memory_type out)) @ '')'') s
      else Running s)"

text \<open>
  The \<open>i\<close>-th \<open>int32_t\<close> of a buffer, its four bytes in little-endian order; reading
  beyond the buffer is not defined.
\<close>

definition int32_at :: "8 word list \<Rightarrow> nat \<Rightarrow> 32 word option" where
  "int32_at bytes i =
     (case take 4 (drop (4 * i) bytes) of
        [b0, b1, b2, b3] \<Rightarrow>
          Some (ucast b0 + 256 * ucast b1 + 65536 * ucast b2 + 16777216 * ucast b3)
      | _ \<Rightarrow> None)"

text \<open>The loop that compares the 16 sums and differences, from index \<open>i\<close> on.\<close>

function compare_loop :: "8 word list \<Rightarrow> 8 word list \<Rightarrow> nat \<Rightarrow> stmt" where
  "compare_loop output0_content output1_content i s =
     (if i < 16
      then (case int32_at output0_content i of
              None \<Rightarrow> Crash Out_Of_Bounds_Read s
            | Some r0 \<Rightarrow>
                (let s1 = LOG_INFO (show_int (sint (input0_data ! i)) @ '' + ''
                                    @ show_int (sint (input1_data ! i)) @ '' = ''
                                    @ show_int (sint r0)) s
                 in case int32_at output1_content i of
                      None \<Rightarrow> Crash Out_Of_Bounds_Read s1
                    | Some r1 \<Rightarrow>
                        (let s2 = LOG_INFO (show_int (sint (input0_data ! i)) @ '' - ''
                                            @ show_int (sint (input1_data ! i)) @ '' = ''
                                            @ show_int (sint r1)) s1
                         in if input0_data ! i + input1_data ! i \<noteq> r0
                            then FAIL (''incorrect sum in '' @ output0) s2
                            else if input0_data ! i - input1_data ! i \<noteq> r1
                            then FAIL (''incorrect difference in '' @ output1) s2
                            else compare_loop output0_content output1_content (Suc i) s2)))
      else Running s)"
  by pat_completeness auto
termination
  by (relation "measure (\<lambda>(c0, c1, i, s). 16 - i)") auto

declare compare_loop.simps [simp del]

definition check_outputs :: "response \<Rightarrow> stmt" where
  "check_outputs resp s =
     (case resp_output resp output0 of
        Inl e \<Rightarrow> FAIL_IF_ERR (Some e) ''getting output0 result'' s
      | Inr out0 \<Rightarrow>
          (case check_output_meta ''output0'' out0 s of
             Running s1 \<Rightarrow>
               (case resp_output resp output1 of
                  Inl e \<Rightarrow> FAIL_IF_ERR (Some e) ''getting output1 result'' s1
                | Inr out1 \<Rightarrow>
                    (case check_output_meta ''output1'' out1 s1 of
                       Running s2 \<Rightarrow> compare_loop (od_content out0) (od_content out1) 0 s2
                     | Exit n s2 \<Rightarrow> Exit n s2
                     | Crash f s2 \<Rightarrow> Crash f s2))
           | Exit n s1 \<Rightarrow> Exit n s1
           | Crash f s1 \<Rightarrow> Crash f s1))"

text \<open>
  \<open>return 0\<close>: the scope of \<open>main\<close> ends, and the shared pointer that owns the server
  deletes it; what the deletion returns is dropped. The process ends with status 0.
\<close>

definition return_0 :: stmt where
  "return_0 s = Exit 0 (s\<lparr>held := remove1 H_Server (held s)\<rparr>)"

definition after_response :: "engine \<Rightarrow> response \<Rightarrow> stmt" where
  "after_response E resp =
     seq [acquire H_Response,
          FAIL_IF_ERR (resp_status resp) ''response'',
          print_response_header E resp,
          check_outputs resp,
          FAIL_IF_ERR (resp_delete resp) ''deleting inference response'',
          release H_Response,
          FAIL_IF_ERR (TRTSERVER_ResponseAllocatorDelete E) ''deleting response allocator'',
          release H_Allocator,
          return_0]"

subsection \<open>Submitting the request\<close>

text \<open>\<open>p->get_future()\<close>: the shared state of the promise.\<close>

definition get_future :: "addr \<Rightarrow> state \<Rightarrow> fault + nat" where
  "get_future p s =
     (case map_of (objs s) p of Some (Promise c) \<Rightarrow> Inr c | _ \<Rightarrow> Inl Invalid_Dereference)"

text \<open>
  \<open>completed.get()\<close>: the value of the shared state; while there is none the caller
  waits, and \<open>None\<close> is a wait without end.
\<close>

definition future_get :: "nat \<Rightarrow> state \<Rightarrow> response option" where
  "future_get c s = (case map_of (shared s) c of Some (Some v) \<Rightarrow> Some v | _ \<Rightarrow> None)"

text \<open>
  The engine's side of an accepted submission: it calls the completion callback it was
  given, with the promise as \<open>userp\<close>, once or never. The engine runs the callback on a
  thread of its own; in the model it has run by the time \<open>main\<close> waits for the future.
  The calls of \<open>ResponseAlloc\<close> and \<open>ResponseRelease\<close> that the engine makes while it
  computes and deletes a response are its own business and no part of \<open>main\<close>.
\<close>

definition engine_completes :: "response option \<Rightarrow> addr \<Rightarrow> state \<Rightarrow> fault + state" where
  "engine_completes completion userp s =
     (case completion of None \<Rightarrow> Inr s | Some resp \<Rightarrow> InferComplete H_Server resp userp s)"

definition infer :: "engine \<Rightarrow> state \<Rightarrow> outcome option" where
  "infer E s =
     (let (p, s1) = new_promise s
      in case get_future p s1 of
           Inl f \<Rightarrow> Some (Crash f s1)
         | Inr completed \<Rightarrow>
             (case TRTSERVER_ServerInferAsync E of
                Rejected e \<Rightarrow> Some (FAIL_IF_ERR (Some e) ''running inference'' s1)
              | Accepted completion \<Rightarrow>
                  (case seq [FAIL_IF_ERR (TRTSERVER_InferenceRequestProviderDelete E)
                               ''deleting inference request provider'',
                             release H_RequestProvider] s1 of
                     Running s2 \<Rightarrow>
                       (case engine_completes completion p s2 of
                          Inl f \<Rightarrow> Some (Crash f s2)
                        | Inr s3 \<Rightarrow>
                            (case future_get completed s3 of
                               None \<Rightarrow> None
                             | Some resp \<Rightarrow> Some (after_response E resp s3)))
                   | Exit n s2 \<Rightarrow> Some (Exit n s2)
                   | Crash f s2 \<Rightarrow> Some (Crash f s2))))"

subsection \<open>The program\<close>

text \<open>The process starts with nothing allocated and \<open>mem\<close> bytes to allocate from.\<close>

definition initial_state :: "nat \<Rightarrow> state" where
  "initial_state mem =
     \<lparr>objs = [], avail = mem, shared = [], trace = [], info_log = [], error_log = [],
      held = [], slept_ms = 0\<rparr>"

text \<open>What \<open>main\<close> does once the server is up: from the wait for the model on.\<close>

definition serve :: "engine \<Rightarrow> state \<Rightarrow> outcome option" where
  "serve E s1 =
     (case model_loop E 0 s1 of
        None \<Rightarrow> None
      | Some (Running s2) \<Rightarrow>
          (case setup_request E s2 of
             Running s3 \<Rightarrow> infer E s3
           | Exit n s3 \<Rightarrow> Some (Exit n s3)
           | Crash f s3 \<Rightarrow> Some (Crash f s3))
      | Some (Exit n s2) \<Rightarrow> Some (Exit n s2)
      | Some (Crash f s2) \<Rightarrow> Some (Crash f s2))"

definition main :: "engine \<Rightarrow> nat \<Rightarrow> string \<Rightarrow> getopt_result list \<Rightarrow> outcome option" where
  "main E mem argv0 opts =
     (case parse_commandline argv0 opts [] (initial_state mem) of
        Inl out \<Rightarrow> Some out
      | Inr model_repository_path \<Rightarrow>
          (case seq [check_path argv0 model_repository_path,
                     create_server E model_repository_path,
                     health_loop E 0,
                     print_server_status E] (initial_state mem) of
             Running s1 \<Rightarrow> serve E s1
           | Exit n s1 \<Rightarrow> Some (Exit n s1)
           | Crash f s1 \<Rightarrow> Some (Crash f s1)))"

section \<open>What the engine does, and what a run shows\<close>

text \<open>
  The conditions on the engine's answers under which each part of \<open>main\<close> goes through.
  They speak of the answers alone, not of the program.
\<close>

subsection \<open>The steps of a run\<close>

text \<open>The command line has no unknown option; the path is the argument of the last \<open>-r\<close>.\<close>

definition bad_option :: "getopt_result list \<Rightarrow> bool" where
  "bad_option opts \<longleftrightarrow> Opt_unknown \<in> set opts"

definition path_of :: "getopt_result list \<Rightarrow> string" where
  "path_of opts = last ([] # [optarg. Opt_r optarg \<leftarrow> opts])"

text \<open>The path is not empty and the four calls that create the server succeed.\<close>

definition startup_ok :: "engine \<Rightarrow> string \<Rightarrow> bool" where
  "startup_ok E path \<longleftrightarrow>
     path \<noteq> [] \<and> TRTSERVER_ServerOptionsNew E = None
     \<and> TRTSERVER_ServerOptionsSetModelRepositoryPath E path = None
     \<and> TRTSERVER_ServerNew E = None \<and> TRTSERVER_ServerOptionsDelete E = None"

text \<open>
  The \<open>k\<close>-th health query finds the server live and ready; or both calls succeed and
  it is not. The server is healthy in time when one of the first 10 queries finds it live
  and ready and the earlier ones succeed.
\<close>

definition healthy_at :: "engine \<Rightarrow> nat \<Rightarrow> bool" where
  "healthy_at E k \<longleftrightarrow>
     TRTSERVER_ServerIsLive E k = Inr True \<and> TRTSERVER_ServerIsReady E k = Inr True"

definition unhealthy_at :: "engine \<Rightarrow> nat \<Rightarrow> bool" where
  "unhealthy_at E k \<longleftrightarrow>
     (\<exists>live ready. TRTSERVER_ServerIsLive E k = Inr live \<and> TRTSERVER_ServerIsReady E k = Inr ready
        \<and> \<not> (live \<and> ready))"

definition health_ok :: "engine \<Rightarrow> bool" where
  "health_ok E \<longleftrightarrow> (\<exists>n<10. healthy_at E n \<and> (\<forall>k<n. unhealthy_at E k))"

text \<open>The status of the server is obtained, serialised, parsed and deleted.\<close>

definition status_ok :: "engine \<Rightarrow> bool" where
  "status_ok E \<longleftrightarrow>
     (\<exists>pb buffer status. TRTSERVER_ServerStatus E = Inr pb \<and> pb_serialize pb = Inr buffer
        \<and> ServerStatus_ParseFromArray E buffer = Some status \<and> pb_delete pb = None)"

definition boot_ok :: "engine \<Rightarrow> getopt_result list \<Rightarrow> bool" where
  "boot_ok E opts \<longleftrightarrow>
     \<not> bad_option opts \<and> startup_ok E (path_of opts) \<and> health_ok E \<and> status_ok E"

text \<open>
  What the \<open>k\<close>-th status query of the model tells: the ready state of version 1 of
  \<open>simple\<close>, when the status is obtained, serialised and parsed and has an entry for
  the model and the version. The model is ready at the query; or it is not and the status
  protobuf is deleted, so that the loop queries again; or the query fails.
\<close>

definition model_state_at :: "engine \<Rightarrow> nat \<Rightarrow> (ModelReadyState \<times> protobuf) option" where
  "model_state_at E k =
     (case TRTSERVER_ServerModelStatus E k ''simple'' of
        Inl e \<Rightarrow> None
      | Inr pb \<Rightarrow>
          (case pb_serialize pb of
             Inl e \<Rightarrow> None
           | Inr buffer \<Rightarrow>
               (case ServerStatus_ParseFromArray E buffer of
                  None \<Rightarrow> None
                | Some status \<Rightarrow>
                    (case model_status status ''simple'' of
                       None \<Rightarrow> None
                     | Some itr \<Rightarrow>
                         (case version_status itr 1 of
                            None \<Rightarrow> None
                          | Some vitr \<Rightarrow> Some (ready_state vitr, pb))))))"

definition model_ready_at :: "engine \<Rightarrow> nat \<Rightarrow> bool" where
  "model_ready_at E k \<longleftrightarrow> (\<exists>pb. model_state_at E k = Some (MODEL_READY, pb))"

definition model_waiting_at :: "engine \<Rightarrow> nat \<Rightarrow> bool" where
  "model_waiting_at E k \<longleftrightarrow>
     (\<exists>r pb. model_state_at E k = Some (r, pb) \<and> r \<noteq> MODEL_READY \<and> pb_delete pb = None)"

text \<open>The model becomes ready: some query finds it ready, the earlier ones find it waiting.\<close>

definition model_ok :: "engine \<Rightarrow> bool" where
  "model_ok E \<longleftrightarrow> (\<exists>n. model_ready_at E n \<and> (\<forall>k<n. model_waiting_at E k))"

text \<open>A query fails before the model is ready.\<close>

definition model_fails :: "engine \<Rightarrow> bool" where
  "model_fails E \<longleftrightarrow>
     (\<exists>n. \<not> model_ready_at E n \<and> \<not> model_waiting_at E n \<and> (\<forall>k<n. model_waiting_at E k))"

text \<open>The allocator and the request provider are created and both inputs are assigned.\<close>

definition request_ok :: "engine \<Rightarrow> bool" where
  "request_ok E \<longleftrightarrow>
     TRTSERVER_ResponseAllocatorNew E = None
     \<and> TRTSERVER_InferenceRequestProviderNew E ''simple'' (- 1)
         (SerializeToString request_header) = None
     \<and> TRTSERVER_InferenceRequestProviderSetInputData E ''INPUT0'' input0_data 64
         TRTSERVER_MEMORY_CPU = None
     \<and> TRTSERVER_InferenceRequestProviderSetInputData E ''INPUT1'' input1_data 64
         TRTSERVER_MEMORY_CPU = None"

text \<open>The header of the response is obtained, serialised, parsed and deleted.\<close>

definition header_ok :: "engine \<Rightarrow> response \<Rightarrow> bool" where
  "header_ok E resp \<longleftrightarrow>
     (\<exists>pb buffer header. resp_header resp = Inr pb \<and> pb_serialize pb = Inr buffer
        \<and> InferResponseHeader_ParseFromArray E buffer = Some header \<and> pb_delete pb = None)"

text \<open>
  The outputs are right: \<open>OUTPUT0\<close> and \<open>OUTPUT1\<close> are there, each of 64 bytes in CPU
  memory, and at every index below 16 the first holds the sum and the second the
  difference of the two inputs.
\<close>

definition elements_ok :: "8 word list \<Rightarrow> 8 word list \<Rightarrow> nat \<Rightarrow> bool" where
  "elements_ok c0 c1 i \<longleftrightarrow>
     int32_at c0 i = Some (input0_data ! i + input1_data ! i)
     \<and> int32_at c1 i = Some (input0_data ! i - input1_data ! i)"

definition outputs_ok :: "response \<Rightarrow> bool" where
  "outputs_ok resp \<longleftrightarrow>
     (\<exists>out0 out1. resp_output resp ''OUTPUT0'' = Inr out0 \<and> resp_output resp ''OUTPUT1'' = Inr out1
        \<and> length (od_content out0) = 64 \<and> od_memory_type out0 = TRTSERVER_MEMORY_CPU
        \<and> length (od_content out1) = 64 \<and> od_memory_type out1 = TRTSERVER_MEMORY_CPU
        \<and> (\<forall>i<16. int32_at (od_content out0) i = Some (input0_data ! i + input1_data ! i)
                   \<and> int32_at (od_content out1) i = Some (input0_data ! i - input1_data ! i)))"

text \<open>
  The response is good: its status is no error, its header and outputs are as above, and
  the response and the allocator are deleted.
\<close>

definition response_ok :: "engine \<Rightarrow> response \<Rightarrow> bool" where
  "response_ok E resp \<longleftrightarrow>
     resp_status resp = None \<and> header_ok E resp \<and> outputs_ok resp \<and> resp_delete resp = None
     \<and> TRTSERVER_ResponseAllocatorDelete E = None"

text \<open>
  Every step succeeds: the server is up, the model becomes ready, the request is built,
  accepted and completed with a good response, and the request provider is deleted.
\<close>

definition all_steps_succeed :: "engine \<Rightarrow> getopt_result list \<Rightarrow> bool" where
  "all_steps_succeed E opts \<longleftrightarrow>
     boot_ok E opts \<and> model_ok E \<and> request_ok E
     \<and> (\<exists>resp. TRTSERVER_ServerInferAsync E = Accepted (Some resp) \<and> response_ok E resp)
     \<and> TRTSERVER_InferenceRequestProviderDelete E = None"

text \<open>
  The two ways to wait for ever: the server is up and the model is waiting at every
  query; or the request is accepted and never completed.
\<close>

definition never_exits :: "engine \<Rightarrow> getopt_result list \<Rightarrow> bool" where
  "never_exits E opts \<longleftrightarrow>
     boot_ok E opts
     \<and> ((\<forall>k. model_waiting_at E k)
        \<or> (model_ok E \<and> request_ok E \<and> TRTSERVER_ServerInferAsync E = Accepted None
           \<and> TRTSERVER_InferenceRequestProviderDelete E = None))"

subsection \<open>States before and after\<close>

text \<open>
  A part of the program ran on with memory and error stream as they were; or it failed
  with memory as it was and a diagnostic on the error stream.
\<close>

definition quiet :: "state \<Rightarrow> state \<Rightarrow> bool" where
  "quiet s s' \<longleftrightarrow>
     objs s' = objs s \<and> shared s' = shared s \<and> trace s' = trace s \<and> avail s' = avail s
     \<and> error_log s' = error_log s"

definition failed :: "state \<Rightarrow> state \<Rightarrow> bool" where
  "failed s s' \<longleftrightarrow>
     objs s' = objs s \<and> shared s' = shared s \<and> trace s' = trace s \<and> avail s' = avail s
     \<and> error_log s' \<noteq> []"

text \<open>What a finished run shows: its exit status, and the final state.\<close>

definition exit_status :: "outcome option \<Rightarrow> int option" where
  "exit_status r = (case r of Some (Exit n s) \<Rightarrow> Some n | _ \<Rightarrow> None)"

definition final_state :: "outcome option \<Rightarrow> state option" where
  "final_state r =
     (case r of
        Some (Running s) \<Rightarrow> Some s
      | Some (Exit n s) \<Rightarrow> Some s
      | Some (Crash f s) \<Rightarrow> Some s
      | None \<Rightarrow> None)"

definition held_at_exit :: "outcome option \<Rightarrow> handle list" where
  "held_at_exit r = (case final_state r of Some s \<Rightarrow> held s | None \<Rightarrow> [])"

definition errors_at_exit :: "outcome option \<Rightarrow> string list" where
  "errors_at_exit r = (case final_state r of Some s \<Rightarrow> error_log s | None \<Rightarrow> [])"

definition trace_at_exit :: "outcome option \<Rightarrow> event list" where
  "trace_at_exit r = (case final_state r of Some s \<Rightarrow> trace s | None \<Rightarrow> [])"

subsection \<open>Engines to run the program on\<close>

text \<open>The bytes of \<open>int32_t\<close> values in memory, little-endian.\<close>

definition int32_bytes :: "32 word \<Rightarrow> 8 word list" where
  "int32_bytes w = [ucast w, ucast (drop_bit 8 w), ucast (drop_bit 16 w), ucast (drop_bit 24 w)]"

definition tensor_bytes :: "32 word list \<Rightarrow> 8 word list" where
  "tensor_bytes ws = concat (map int32_bytes ws)"

definition ok_protobuf :: "string \<Rightarrow> protobuf" where
  "ok_protobuf bytes = \<lparr>pb_serialize = Inr bytes, pb_delete = None\<rparr>"

definition status_of :: "ModelReadyState \<Rightarrow> ServerStatus" where
  "status_of r =
     \<lparr>model_status = [''simple'' \<mapsto> \<lparr>version_status = [1 \<mapsto> \<lparr>ready_state = r\<rparr>]\<rparr>]\<rparr>"

text \<open>A response with the sums and differences the model \<open>simple\<close> computes.\<close>

definition good_response :: response where
  "good_response =
     \<lparr>resp_status = None,
      resp_header = Inr (ok_protobuf ''header''),
      resp_output = (\<lambda>name.
        if name = ''OUTPUT0''
        then Inr \<lparr>od_content = tensor_bytes (map (\<lambda>i. of_nat i + 1) [0..<16]),
                  od_memory_type = TRTSERVER_MEMORY_CPU\<rparr>
        else if name = ''OUTPUT1''
        then Inr \<lparr>od_content = tensor_bytes (map (\<lambda>i. of_nat i - 1) [0..<16]),
                  od_memory_type = TRTSERVER_MEMORY_CPU\<rparr>
        else Inl (Engine_Error ''INVALID_ARG'' ''unknown output'')),
      resp_delete = None\<rparr>"

text \<open>The same response with a wrong sum at index 3.\<close>

definition wrong_response :: response where
  "wrong_response =
     good_response\<lparr>resp_output := (\<lambda>name.
        if name = ''OUTPUT0''
        then Inr \<lparr>od_content = tensor_bytes (map (\<lambda>i. if i = 3 then 7 else of_nat i + 1) [0..<16]),
                  od_memory_type = TRTSERVER_MEMORY_CPU\<rparr>
        else resp_output good_response name)\<rparr>"

text \<open>
  An engine on which every call succeeds: the server is live at once and ready from the
  third health query on, the model is loading at the first status query and ready at the
  second, and the request is completed with the good response.
\<close>

definition good_engine :: engine where
  "good_engine =
     \<lparr>TRTSERVER_ServerOptionsNew = None,
      TRTSERVER_ServerOptionsSetModelRepositoryPath = (\<lambda>path. None),
      TRTSERVER_ServerNew = None,
      TRTSERVER_ServerOptionsDelete = None,
      TRTSERVER_ServerIsLive = (\<lambda>k. Inr True),
      TRTSERVER_ServerIsReady = (\<lambda>k. Inr (2 \<le> k)),
      TRTSERVER_ServerStatus = Inr (ok_protobuf ''loading''),
      TRTSERVER_ServerModelStatus =
        (\<lambda>k name. Inr (ok_protobuf (if 1 \<le> k then ''ready'' else ''loading''))),
      TRTSERVER_ResponseAllocatorNew = None,
      TRTSERVER_InferenceRequestProviderNew = (\<lambda>name version header. None),
      TRTSERVER_InferenceRequestProviderSetInputData = (\<lambda>name d n m. None),
      TRTSERVER_ServerInferAsync = Accepted (Some good_response),
      TRTSERVER_InferenceRequestProviderDelete = None,
      TRTSERVER_ResponseAllocatorDelete = None,
      ServerStatus_ParseFromArray =
        (\<lambda>bytes. if bytes = ''ready'' then Some (status_of MODEL_READY)
                  else if bytes = ''loading'' then Some (status_of MODEL_LOADING)
                  else None),
      ServerStatus_DebugString = (\<lambda>status. ''status''),
      InferResponseHeader_ParseFromArray = (\<lambda>bytes. Some bytes)\<rparr>"

text \<open>The same engine with a model that is loading at every status query.\<close>

definition never_ready_engine :: engine where
  "never_ready_engine =
     good_engine\<lparr>TRTSERVER_ServerModelStatus := (\<lambda>k name. Inr (ok_protobuf ''loading''))\<rparr>"

text \<open>The same engine, refusing the model repository path.\<close>

definition no_repository_engine :: engine where
  "no_repository_engine =
     good_engine\<lparr>TRTSERVER_ServerOptionsSetModelRepositoryPath :=
       (\<lambda>path. Some (Engine_Error ''NOT_FOUND'' ''no such directory''))\<rparr>"

text \<open>The same engine, completing the request with the wrong response.\<close>

definition wrong_engine :: engine where
  "wrong_engine = good_engine\<lparr>TRTSERVER_ServerInferAsync := Accepted (Some wrong_response)\<rparr>"

section \<open>Properties of the callbacks\<close>

lemma fold_max_ge: "(m::nat) \<le> fold max xs m"
  by (induction xs arbitrary: m) (auto intro: order_trans [OF max.cobounded2])

lemma fold_max_mem: "x \<in> set xs \<Longrightarrow> (x::nat) \<le> fold max xs m"
proof (induction xs arbitrary: m)
  case Nil
  then show ?case by simp
next
  case (Cons y ys)
  show ?case
  proof (cases "x = y")
    case True
    have "x \<le> max y m" using True by simp
    also have "\<dots> \<le> fold max ys (max y m)" by (rule fold_max_ge)
    finally show ?thesis by simp
  next
    case False
    with Cons show ?thesis by simp
  qed
qed

lemma fresh_not_null: "fresh h \<noteq> 0"
  by (simp add: fresh_def)

lemma fresh_not_key: "fresh h \<notin> fst ` set h"
proof
  assume "fresh h \<in> fst ` set h"
  then have "fresh h \<in> set (map fst h)" by simp
  then have "fresh h \<le> fold max (map fst h) 0" by (rule fold_max_mem)
  then show False by (simp add: fresh_def)
qed

lemma fresh_not_live: "map_of h (fresh h) = None"
  using fresh_not_key [of h] by (simp add: map_of_eq_None_iff)

lemma fresh_not_live_Cons: "map_of h (fresh (x # h)) = None"
proof -
  have "fresh (x # h) \<notin> fst ` set (x # h)" by (rule fresh_not_key)
  then show ?thesis by (simp add: map_of_eq_None_iff)
qed

lemma live_not_fresh: "map_of h a = Some v \<Longrightarrow> a \<noteq> fresh h"
  using fresh_not_live [of h] by auto

lemma map_of_delete_same: "map_of (AList.delete a h) a = None"
  by (simp add: delete_conv')

subsection \<open>Allocation for a memory type that is not supported\<close>

text \<open>
  Claim C2, as stated: for a memory type other than CPU memory, \<open>ResponseAlloc\<close> returns a
  null buffer and a null token and reports success, for every byte size, zero included.
  At byte size 0 the first branch of \<open>ResponseAlloc\<close> is taken whatever the memory type:
  the token is a new string, not null.
\<close>

theorem zero_bytes_on_gpu_gives_token:
  "alloc_token (ResponseAlloc H_Allocator ''OUTPUT0'' 0 TRTSERVER_MEMORY_GPU 0 nullptr
                  (initial_state 1024)) \<noteq> nullptr"
  by (simp add: ResponseAlloc_def alloc_token_def new_string_def fresh_def initial_state_def
      LOG_INFO_def)

text \<open>
  Claim C2, amended: for a memory type other than CPU memory and a byte size that is not
  zero, \<open>ResponseAlloc\<close> returns success, a null buffer and a null token, and does
  nothing but write its log line.
\<close>

theorem ResponseAlloc_unsupported:
  assumes "memory_type \<noteq> TRTSERVER_MEMORY_CPU" and "byte_size \<noteq> 0"
  shows "ResponseAlloc allocator tensor_name byte_size memory_type memory_type_id userp s =
           (None, nullptr, nullptr,
            LOG_INFO (''failed to allocated '' @ show_nat byte_size
                      @ '' bytes for result tensor '' @ tensor_name) s)"
  using assms by (simp add: ResponseAlloc_def)

theorem ResponseAlloc_unsupported_witness:
  "TRTSERVER_MEMORY_GPU \<noteq> TRTSERVER_MEMORY_CPU \<and> (64::nat) \<noteq> 0
   \<and> ResponseAlloc H_Allocator ''OUTPUT0'' 64 TRTSERVER_MEMORY_GPU 0 nullptr (initial_state 1024) =
       (None, nullptr, nullptr,
        LOG_INFO ''failed to allocated 64 bytes for result tensor OUTPUT0'' (initial_state 1024))"
proof -
  have a: "TRTSERVER_MEMORY_GPU \<noteq> TRTSERVER_MEMORY_CPU" by simp
  have b: "(64::nat) \<noteq> 0" by simp
  have c: "show_nat 64 = ''64''" by code_simp
  show ?thesis
    using ResponseAlloc_unsupported [OF a b, of H_Allocator "''OUTPUT0''" 0 nullptr "initial_state 1024"]
    by (simp add: c)
qed

subsection \<open>Allocation of zero bytes\<close>

text \<open>
  Claim C3: for byte size 0, \<open>ResponseAlloc\<close> returns success and a null buffer, whatever
  the memory type; it allocates no buffer (the only memory operation is the allocation of
  the token's string, and the bytes available to \<open>malloc\<close> are unchanged); and the token
  is not null: it is a live string holding the tensor name.
\<close>

theorem ResponseAlloc_zero:
  "alloc_error (ResponseAlloc allocator tensor_name 0 memory_type memory_type_id userp s) = None
   \<and> alloc_buffer (ResponseAlloc allocator tensor_name 0 memory_type memory_type_id userp s) = nullptr
   \<and> alloc_token (ResponseAlloc allocator tensor_name 0 memory_type memory_type_id userp s) \<noteq> nullptr
   \<and> map_of (objs (alloc_state (ResponseAlloc allocator tensor_name 0 memory_type memory_type_id userp s)))
        (alloc_token (ResponseAlloc allocator tensor_name 0 memory_type memory_type_id userp s))
       = Some (Str tensor_name)
   \<and> trace (alloc_state (ResponseAlloc allocator tensor_name 0 memory_type memory_type_id userp s))
       = trace s @ [New_String tensor_name
           (alloc_token (ResponseAlloc allocator tensor_name 0 memory_type memory_type_id userp s))]
   \<and> avail (alloc_state (ResponseAlloc allocator tensor_name 0 memory_type memory_type_id userp s))
       = avail s"
  by (simp add: ResponseAlloc_def alloc_error_def alloc_buffer_def alloc_token_def alloc_state_def
      new_string_def LOG_INFO_def fresh_not_null Let_def)

theorem ResponseAlloc_zero_witness:
  "ResponseAlloc H_Allocator ''OUTPUT0'' 0 TRTSERVER_MEMORY_CPU 0 nullptr (initial_state 1024)
     = (None, nullptr, 1,
        (initial_state 1024)\<lparr>objs := [(1, Str ''OUTPUT0'')], trace := [New_String ''OUTPUT0'' 1],
           info_log := [''allocated 0 bytes for result tensor OUTPUT0'']\<rparr>)
   \<and> alloc_buffer (ResponseAlloc H_Allocator ''OUTPUT0'' 0 TRTSERVER_MEMORY_CPU 0 nullptr
        (initial_state 1024)) = nullptr
   \<and> alloc_token (ResponseAlloc H_Allocator ''OUTPUT0'' 0 TRTSERVER_MEMORY_CPU 0 nullptr
        (initial_state 1024)) \<noteq> nullptr"
proof -
  have c: "show_nat 0 = ''0''" by code_simp
  have "ResponseAlloc H_Allocator ''OUTPUT0'' 0 TRTSERVER_MEMORY_CPU 0 nullptr (initial_state 1024)
     = (None, nullptr, 1,
        (initial_state 1024)\<lparr>objs := [(1, Str ''OUTPUT0'')], trace := [New_String ''OUTPUT0'' 1],
           info_log := [''allocated 0 bytes for result tensor OUTPUT0'']\<rparr>)"
    by (simp add: ResponseAlloc_def new_string_def fresh_def initial_state_def LOG_INFO_def c)
  then show ?thesis
    using ResponseAlloc_zero [of H_Allocator "''OUTPUT0''" TRTSERVER_MEMORY_CPU 0 nullptr
        "initial_state 1024"]
    by simp
qed

subsection \<open>Release with a null token\<close>

lemma release_with_null_token_returns:
  assumes "buffer = nullptr \<or> (\<exists>n. map_of (objs s) buffer = Some (Buffer n))"
  shows "\<exists>s'. ResponseRelease allocator buffer nullptr byte_size memory_type memory_type_id s
               = Inr (None, s')"
proof (cases "buffer = nullptr")
  case True
  then show ?thesis
    by (simp add: ResponseRelease_def new_string_def deref_string_def LOG_INFO_def free_def
        delete_string_def fresh_not_null Let_def)
next
  case False
  with assms obtain n where n: "map_of (objs s) buffer = Some (Buffer n)" by auto
  then have ne: "buffer \<noteq> fresh (objs s)" by (rule live_not_fresh)
  show ?thesis
    using False n ne
    by (simp add: ResponseRelease_def new_string_def deref_string_def LOG_INFO_def free_def
        delete_string_def fresh_not_null Let_def delete_conv')
qed

text \<open>
  Claim C6: called with a null token, and a buffer that \<open>free\<close> accepts (null, or a live
  \<open>malloc\<close>ed block), \<open>ResponseRelease\<close> returns success; it writes its log line with
  the placeholder \<open><unknown>\<close> in the place of the tensor name, frees the buffer, and
  deletes the string it made for the placeholder.
\<close>

theorem ResponseRelease_null_token:
  assumes "buffer = nullptr \<or> (\<exists>n. map_of (objs s) buffer = Some (Buffer n))"
  shows "\<exists>s'. ResponseRelease allocator buffer nullptr byte_size memory_type memory_type_id s
               = Inr (None, s')
           \<and> info_log s' = info_log s @ [''Releasing buffer '' @ show_ptr buffer @ '' of size ''
                                 @ show_nat byte_size @ '' for result '' @ [CHR 0x27]
                                 @ ''<unknown>'' @ [CHR 0x27]]
           \<and> trace s' = trace s @ [New_String ''<unknown>'' (fresh (objs s)), Free buffer,
                                    Delete_String (fresh (objs s))]
           \<and> (buffer \<noteq> nullptr \<longrightarrow> map_of (objs s') buffer = None)
           \<and> map_of (objs s') (fresh (objs s)) = None"
proof (cases "buffer = nullptr")
  case True
  then show ?thesis
    by (simp add: ResponseRelease_def new_string_def deref_string_def LOG_INFO_def free_def
        delete_string_def fresh_not_null map_of_delete_same Let_def)
next
  case False
  with assms obtain n where n: "map_of (objs s) buffer = Some (Buffer n)" by auto
  then have ne: "buffer \<noteq> fresh (objs s)" by (rule live_not_fresh)
  show ?thesis
    using False n ne
    by (simp add: ResponseRelease_def new_string_def deref_string_def LOG_INFO_def free_def
        delete_string_def fresh_not_null map_of_delete_same Let_def delete_conv')
qed


theorem ResponseRelease_null_token_witness:
  "\<exists>s'. ResponseRelease H_Allocator 1 nullptr 64 TRTSERVER_MEMORY_CPU 0
          (alloc_state (ResponseAlloc H_Allocator ''OUTPUT0'' 64 TRTSERVER_MEMORY_CPU 0 nullptr
                       (initial_state 1024))) = Inr (None, s')
        \<and> trace s' = [Malloc 64 1, New_String ''OUTPUT0'' 2, New_String ''<unknown>'' 3, Free 1,
                      Delete_String 3]
        \<and> map_of (objs s') 1 = None"
proof -
  define s where "s = alloc_state (ResponseAlloc H_Allocator ''OUTPUT0'' 64 TRTSERVER_MEMORY_CPU 0
                       nullptr (initial_state 1024))"
  have objs: "objs s = [(2, Str ''OUTPUT0''), (1, Buffer 64)]"
    and tr: "trace s = [Malloc 64 1, New_String ''OUTPUT0'' 2]"
    by (simp_all add: s_def ResponseAlloc_def malloc_def new_string_def fresh_def
        initial_state_def LOG_INFO_def alloc_state_def)
  have live: "(1::nat) = nullptr \<or> (\<exists>n. map_of (objs s) 1 = Some (Buffer n))"
    by (simp add: objs)
  have fr: "fresh (objs s) = 3" by (simp add: objs fresh_def)
  show ?thesis
    using ResponseRelease_null_token [OF live, of H_Allocator 64 TRTSERVER_MEMORY_CPU 0]
    unfolding s_def [symmetric] by (auto simp: fr tr)
qed

subsection \<open>Both callbacks report success\<close>

text \<open>
  Claim C10: \<open>ResponseAlloc\<close> returns no error on any input, and whenever the buffer it
  returns is not null, the token is not null either: it is a string that was not allocated
  before the call and holds the tensor name. \<open>ResponseRelease\<close> returns no error
  whenever it returns, and it returns whenever its pointers are valid (the buffer null or
  a live \<open>malloc\<close>ed block, the token null or a live string).
\<close>

theorem allocator_callbacks_succeed:
  "alloc_error (ResponseAlloc allocator tensor_name byte_size memory_type memory_type_id userp s)
     = None
   \<and> (alloc_buffer (ResponseAlloc allocator tensor_name byte_size memory_type memory_type_id userp s)
        \<noteq> nullptr \<longrightarrow>
      alloc_token (ResponseAlloc allocator tensor_name byte_size memory_type memory_type_id userp s)
        \<noteq> nullptr
      \<and> map_of (objs s)
          (alloc_token (ResponseAlloc allocator tensor_name byte_size memory_type memory_type_id
             userp s)) = None
      \<and> map_of (objs (alloc_state (ResponseAlloc allocator tensor_name byte_size memory_type
             memory_type_id userp s)))
          (alloc_token (ResponseAlloc allocator tensor_name byte_size memory_type memory_type_id
             userp s)) = Some (Str tensor_name))
   \<and> (\<forall>e s'. ResponseRelease allocator buffer buffer_userp byte_size' memory_type' memory_type_id' s
               = Inr (e, s') \<longrightarrow> e = None)
   \<and> ((buffer = nullptr \<or> (\<exists>n. map_of (objs s) buffer = Some (Buffer n)))
      \<and> (buffer_userp = nullptr \<or> (\<exists>t. map_of (objs s) buffer_userp = Some (Str t)))
      \<longrightarrow> (\<exists>s'. ResponseRelease allocator buffer buffer_userp byte_size' memory_type'
                 memory_type_id' s = Inr (None, s')))"
proof (intro conjI allI impI)
  show "alloc_error (ResponseAlloc allocator tensor_name byte_size memory_type memory_type_id userp s)
     = None"
    by (simp add: ResponseAlloc_def alloc_error_def split: prod.splits)
next
  assume nn: "alloc_buffer (ResponseAlloc allocator tensor_name byte_size memory_type
                memory_type_id userp s) \<noteq> nullptr"
  then have cond: "byte_size \<noteq> 0" "memory_type = TRTSERVER_MEMORY_CPU" "byte_size \<le> avail s"
    by (auto simp: ResponseAlloc_def alloc_buffer_def malloc_def new_string_def Let_def
        split: if_splits)
  have tok: "alloc_token (ResponseAlloc allocator tensor_name byte_size memory_type memory_type_id
               userp s) = fresh ((fresh (objs s), Buffer byte_size) # objs s)"
    and st: "objs (alloc_state (ResponseAlloc allocator tensor_name byte_size memory_type
               memory_type_id userp s))
             = (fresh ((fresh (objs s), Buffer byte_size) # objs s), Str tensor_name)
               # (fresh (objs s), Buffer byte_size) # objs s"
    using cond
    by (simp_all add: ResponseAlloc_def alloc_token_def alloc_state_def malloc_def new_string_def
        LOG_INFO_def Let_def)
  show "alloc_token (ResponseAlloc allocator tensor_name byte_size memory_type memory_type_id
          userp s) \<noteq> nullptr"
    unfolding tok by (rule fresh_not_null)
  show "map_of (objs s) (alloc_token (ResponseAlloc allocator tensor_name byte_size memory_type
          memory_type_id userp s)) = None"
    unfolding tok by (rule fresh_not_live_Cons)
  show "map_of (objs (alloc_state (ResponseAlloc allocator tensor_name byte_size memory_type
             memory_type_id userp s)))
          (alloc_token (ResponseAlloc allocator tensor_name byte_size memory_type memory_type_id
             userp s)) = Some (Str tensor_name)"
    unfolding tok st by simp
next
  fix e s'
  assume "ResponseRelease allocator buffer buffer_userp byte_size' memory_type' memory_type_id' s
            = Inr (e, s')"
  then show "e = None"
    by (auto simp: ResponseRelease_def Let_def split: prod.splits sum.splits if_splits)
next
  assume v: "(buffer = nullptr \<or> (\<exists>n. map_of (objs s) buffer = Some (Buffer n)))
      \<and> (buffer_userp = nullptr \<or> (\<exists>t. map_of (objs s) buffer_userp = Some (Str t)))"
  show "\<exists>s'. ResponseRelease allocator buffer buffer_userp byte_size' memory_type'
                 memory_type_id' s = Inr (None, s')"
  proof (cases "buffer_userp = nullptr")
    case True
    from v have "buffer = nullptr \<or> (\<exists>n. map_of (objs s) buffer = Some (Buffer n))" by simp
    from release_with_null_token_returns [OF this] True show ?thesis by blast
  next
    case False
    with v obtain t where t: "map_of (objs s) buffer_userp = Some (Str t)" by auto
    show ?thesis
    proof (cases "buffer = nullptr")
      case True
      with False t show ?thesis
        by (simp add: ResponseRelease_def deref_string_def LOG_INFO_def free_def
            delete_string_def Let_def)
    next
      case nz: False
      with v obtain n where n: "map_of (objs s) buffer = Some (Buffer n)" by auto
      with t have "buffer_userp \<noteq> buffer" by auto
      with False t n nz show ?thesis
        by (simp add: ResponseRelease_def deref_string_def LOG_INFO_def free_def
            delete_string_def Let_def delete_conv')
    qed
  qed
qed


theorem allocator_callbacks_succeed_witness:
  "alloc_error (ResponseAlloc H_Allocator ''OUTPUT1'' 64 TRTSERVER_MEMORY_CPU 0 nullptr
     (alloc_state (ResponseAlloc H_Allocator ''OUTPUT0'' 64 TRTSERVER_MEMORY_CPU 0 nullptr
        (initial_state 1024)))) = None
   \<and> alloc_buffer (ResponseAlloc H_Allocator ''OUTPUT1'' 64 TRTSERVER_MEMORY_CPU 0 nullptr
     (alloc_state (ResponseAlloc H_Allocator ''OUTPUT0'' 64 TRTSERVER_MEMORY_CPU 0 nullptr
        (initial_state 1024)))) = 3
   \<and> alloc_token (ResponseAlloc H_Allocator ''OUTPUT1'' 64 TRTSERVER_MEMORY_CPU 0 nullptr
     (alloc_state (ResponseAlloc H_Allocator ''OUTPUT0'' 64 TRTSERVER_MEMORY_CPU 0 nullptr
        (initial_state 1024)))) = 4
   \<and> (\<exists>s'. ResponseRelease H_Allocator 1 2 64 TRTSERVER_MEMORY_CPU 0
          (alloc_state (ResponseAlloc H_Allocator ''OUTPUT0'' 64 TRTSERVER_MEMORY_CPU 0 nullptr
             (initial_state 1024))) = Inr (None, s'))"
proof -
  define s where "s = alloc_state (ResponseAlloc H_Allocator ''OUTPUT0'' 64 TRTSERVER_MEMORY_CPU 0
                       nullptr (initial_state 1024))"
  have objs: "objs s = [(2, Str ''OUTPUT0''), (1, Buffer 64)]" and av: "avail s = 960"
    by (simp_all add: s_def ResponseAlloc_def malloc_def new_string_def fresh_def
        initial_state_def LOG_INFO_def alloc_state_def)
  have b: "alloc_buffer (ResponseAlloc H_Allocator ''OUTPUT1'' 64 TRTSERVER_MEMORY_CPU 0 nullptr s)
             = 3"
    and t: "alloc_token (ResponseAlloc H_Allocator ''OUTPUT1'' 64 TRTSERVER_MEMORY_CPU 0 nullptr s)
             = 4"
    by (simp_all add: ResponseAlloc_def malloc_def new_string_def fresh_def objs av
        LOG_INFO_def alloc_buffer_def alloc_token_def)
  have v: "((1::nat) = nullptr \<or> (\<exists>n. map_of (objs s) 1 = Some (Buffer n)))
      \<and> ((2::nat) = nullptr \<or> (\<exists>t. map_of (objs s) 2 = Some (Str t)))"
    by (simp add: objs)
  show ?thesis
    using allocator_callbacks_succeed [of H_Allocator "''OUTPUT1''" 64 TRTSERVER_MEMORY_CPU 0
        nullptr s 1 2 64 TRTSERVER_MEMORY_CPU 0] v b t
    unfolding s_def [symmetric] by simp
qed

subsection \<open>The completion callback\<close>

lemma InferComplete_live:
  assumes "userp \<noteq> nullptr" and "map_of (objs s) userp = Some (Promise c)"
    and "map_of (shared s) c = Some None"
  shows "InferComplete server resp userp s =
           Inr (s\<lparr>shared := AList.update c (Some resp) (shared s),
                  trace := trace s @ [Set_Value userp resp, Delete_Promise userp],
                  objs := AList.delete userp (objs s)\<rparr>)"
  using assms by (simp add: InferComplete_def set_value_def delete_promise_def)

section \<open>Properties of the main program\<close>

lemma LOG_INFO_fields [simp]:
  "objs (LOG_INFO m s) = objs s" "shared (LOG_INFO m s) = shared s"
  "trace (LOG_INFO m s) = trace s" "avail (LOG_INFO m s) = avail s"
  "error_log (LOG_INFO m s) = error_log s" "held (LOG_INFO m s) = held s"
  "slept_ms (LOG_INFO m s) = slept_ms s"
  by (simp_all add: LOG_INFO_def)

lemma LOG_ERROR_fields [simp]:
  "objs (LOG_ERROR m s) = objs s" "shared (LOG_ERROR m s) = shared s"
  "trace (LOG_ERROR m s) = trace s" "avail (LOG_ERROR m s) = avail s"
  "error_log (LOG_ERROR m s) = error_log s @ [m]" "held (LOG_ERROR m s) = held s"
  by (simp_all add: LOG_ERROR_def)

lemma sleep_for_fields [simp]:
  "objs (sleep_for n s) = objs s" "shared (sleep_for n s) = shared s"
  "trace (sleep_for n s) = trace s" "avail (sleep_for n s) = avail s"
  "error_log (sleep_for n s) = error_log s" "held (sleep_for n s) = held s"
  by (simp_all add: sleep_for_def)

lemma quiet_refl [simp]: "quiet s s"
  by (simp add: quiet_def)

lemma quiet_trans: "quiet s s1 \<Longrightarrow> quiet s1 s2 \<Longrightarrow> quiet s s2"
  by (simp add: quiet_def)

lemma quiet_failed: "quiet s s1 \<Longrightarrow> failed s1 s2 \<Longrightarrow> failed s s2"
  by (simp add: quiet_def failed_def)

lemma FAIL_IF_ERR_None [simp]: "FAIL_IF_ERR None msg s = Running s"
  by (simp add: FAIL_IF_ERR_def)

lemma FAIL_IF_ERR_Some:
  "\<exists>s'. FAIL_IF_ERR (Some e) msg s = Exit 1 s' \<and> failed s s' \<and> held s' = held s"
  by (simp add: FAIL_IF_ERR_def failed_def)

lemma FAIL_exits: "\<exists>s'. FAIL msg s = Exit 1 s' \<and> failed s s' \<and> held s' = held s"
  by (simp add: FAIL_def failed_def)

lemma Usage_exits: "\<exists>s'. Usage argv0 msg s = Exit 1 s' \<and> failed s s' \<and> held s' = held s"
  by (simp add: Usage_def failed_def Let_def)

lemma create_server_ok:
  assumes "startup_ok E path"
  shows "\<exists>s'. seq [check_path argv0 path, create_server E path] s = Running s' \<and> quiet s s'
           \<and> held s' = H_Server # held s"
  using assms
  by (simp add: startup_ok_def create_server_def check_path_def acquire_def release_def quiet_def)

lemma create_server_fails:
  assumes "\<not> startup_ok E path"
  shows "\<exists>s'. seq [check_path argv0 path, create_server E path] s = Exit 1 s' \<and> failed s s'"
proof (cases "path = []")
  case True
  obtain s' where "Usage argv0 ''-r must be used to specify model repository path'' s = Exit 1 s'"
    and "failed s s'"
    using Usage_exits by blast
  with True show ?thesis by (simp add: check_path_def)
next
  case False
  show ?thesis
    using assms False
    by (cases "TRTSERVER_ServerOptionsNew E";
        cases "TRTSERVER_ServerOptionsSetModelRepositoryPath E path";
        cases "TRTSERVER_ServerNew E"; cases "TRTSERVER_ServerOptionsDelete E")
       (simp_all add: startup_ok_def create_server_def check_path_def acquire_def release_def
          FAIL_IF_ERR_def failed_def)
qed


lemma health_loop_healthy:
  assumes "healthy_at E k"
  shows "\<exists>s'. health_loop E k s = Running s' \<and> quiet s s' \<and> held s' = held s"
  using assms by (subst health_loop.simps) (simp add: healthy_at_def quiet_def)

lemma health_loop_unhealthy:
  assumes "unhealthy_at E k" and "Suc k < 10"
  shows "\<exists>s1. health_loop E k s = health_loop E (Suc k) s1 \<and> quiet s s1 \<and> held s1 = held s"
proof -
  from assms(1) obtain live ready where
    "TRTSERVER_ServerIsLive E k = Inr live" "TRTSERVER_ServerIsReady E k = Inr ready"
    "\<not> (live \<and> ready)"
    unfolding unhealthy_at_def by blast
  with assms(2) show ?thesis
    by (subst health_loop.simps) (auto simp: quiet_def Let_def intro!: exI)
qed

lemma health_loop_exhausted:
  assumes "unhealthy_at E k" and "10 \<le> Suc k"
  shows "\<exists>s'. health_loop E k s = Exit 1 s' \<and> failed s s'"
proof -
  from assms(1) obtain live ready where
    "TRTSERVER_ServerIsLive E k = Inr live" "TRTSERVER_ServerIsReady E k = Inr ready"
    "\<not> (live \<and> ready)"
    unfolding unhealthy_at_def by blast
  with assms(2) show ?thesis
    by (subst health_loop.simps) (auto simp: failed_def FAIL_def Let_def)
qed

lemma health_loop_error:
  assumes "\<not> healthy_at E k" and "\<not> unhealthy_at E k"
  shows "\<exists>s'. health_loop E k s = Exit 1 s' \<and> failed s s'"
proof (cases "TRTSERVER_ServerIsLive E k")
  case (Inl e)
  then show ?thesis
    by (subst health_loop.simps) (simp add: FAIL_IF_ERR_def failed_def)
next
  case live: (Inr live)
  show ?thesis
  proof (cases "TRTSERVER_ServerIsReady E k")
    case (Inl e)
    with live show ?thesis
      by (subst health_loop.simps) (simp add: FAIL_IF_ERR_def failed_def)
  next
    case (Inr ready)
    with live assms have False by (auto simp: healthy_at_def unhealthy_at_def)
    then show ?thesis ..
  qed
qed

text \<open>The health loop from its \<open>k\<close>-th attempt on.\<close>

lemma health_loop_from_ok:
  assumes "healthy_at E n" and "\<forall>j. k \<le> j \<and> j < n \<longrightarrow> unhealthy_at E j" and "k \<le> n" and "n < 10"
  shows "\<exists>s'. health_loop E k s = Running s' \<and> quiet s s' \<and> held s' = held s"
  using assms
proof (induction "n - k" arbitrary: k s)
  case 0
  then have "k = n" by simp
  with "0.prems"(1) show ?case by (simp add: health_loop_healthy)
next
  case (Suc d)
  then have lt: "k < n" by simp
  with Suc.prems have un: "unhealthy_at E k" by simp
  from lt Suc.prems have "Suc k < 10" by simp
  from health_loop_unhealthy [OF un this, of s] obtain s1 where
    s1: "health_loop E k s = health_loop E (Suc k) s1" "quiet s s1" "held s1 = held s"
    by blast
  have "\<exists>s'. health_loop E (Suc k) s1 = Running s' \<and> quiet s1 s' \<and> held s' = held s1"
    using Suc.hyps(2) Suc.prems lt by (intro Suc.hyps(1)) auto
  then obtain s' where "health_loop E (Suc k) s1 = Running s'" "quiet s1 s'" "held s' = held s1"
    by blast
  with s1 show ?case by (auto intro: quiet_trans)
qed

lemma health_loop_from_fails:
  assumes "\<not> (\<exists>n. k \<le> n \<and> n < 10 \<and> healthy_at E n \<and> (\<forall>j. k \<le> j \<and> j < n \<longrightarrow> unhealthy_at E j))"
    and "k < 10"
  shows "\<exists>s'. health_loop E k s = Exit 1 s' \<and> failed s s'"
  using assms
proof (induction "10 - k" arbitrary: k s rule: less_induct)
  case less
  show ?case
  proof (cases "healthy_at E k")
    case True
    with less.prems have False by (auto dest: spec [of _ k])
    then show ?thesis ..
  next
    case nh: False
    show ?thesis
    proof (cases "unhealthy_at E k")
      case False
      with nh show ?thesis by (rule health_loop_error)
    next
      case un: True
      show ?thesis
      proof (cases "Suc k < 10")
        case False
        then have "10 \<le> Suc k" by simp
        with un show ?thesis by (rule health_loop_exhausted)
      next
        case True
        from health_loop_unhealthy [OF un True, of s] obtain s1 where
          s1: "health_loop E k s = health_loop E (Suc k) s1" "quiet s s1"
          by blast
        have no: "\<not> (\<exists>n. Suc k \<le> n \<and> n < 10 \<and> healthy_at E n
                      \<and> (\<forall>j. Suc k \<le> j \<and> j < n \<longrightarrow> unhealthy_at E j))"
        proof
          assume "\<exists>n. Suc k \<le> n \<and> n < 10 \<and> healthy_at E n
                      \<and> (\<forall>j. Suc k \<le> j \<and> j < n \<longrightarrow> unhealthy_at E j)"
          then obtain n where n: "Suc k \<le> n" "n < 10" "healthy_at E n"
            "\<forall>j. Suc k \<le> j \<and> j < n \<longrightarrow> unhealthy_at E j" by blast
          have all: "\<forall>j. k \<le> j \<and> j < n \<longrightarrow> unhealthy_at E j"
          proof (intro allI impI)
            fix j assume "k \<le> j \<and> j < n"
            then show "unhealthy_at E j" using n(4) un by (cases "j = k") auto
          qed
          from n(1) have "k \<le> n" by simp
          with n(2,3) all have "\<exists>n. k \<le> n \<and> n < 10 \<and> healthy_at E n
                      \<and> (\<forall>j. k \<le> j \<and> j < n \<longrightarrow> unhealthy_at E j)" by blast
          with less.prems(1) show False by contradiction
        qed
        have "\<exists>s'. health_loop E (Suc k) s1 = Exit 1 s' \<and> failed s1 s'"
          using True no by (intro less.hyps) auto
        then obtain s' where "health_loop E (Suc k) s1 = Exit 1 s'" "failed s1 s'" by blast
        with s1 show ?thesis by (auto intro: quiet_failed)
      qed
    qed
  qed
qed


lemma health_loop_ok:
  assumes "health_ok E"
  shows "\<exists>s'. health_loop E 0 s = Running s' \<and> quiet s s' \<and> held s' = held s"
proof -
  from assms obtain n where "n < 10" "healthy_at E n" "\<forall>k<n. unhealthy_at E k"
    unfolding health_ok_def by blast
  then show ?thesis by (intro health_loop_from_ok [of E n]) auto
qed

lemma health_loop_fails:
  assumes "\<not> health_ok E"
  shows "\<exists>s'. health_loop E 0 s = Exit 1 s' \<and> failed s s'"
proof (rule health_loop_from_fails)
  show "\<not> (\<exists>n. 0 \<le> n \<and> n < 10 \<and> healthy_at E n \<and> (\<forall>j. 0 \<le> j \<and> j < n \<longrightarrow> unhealthy_at E j))"
    using assms unfolding health_ok_def by auto
  show "(0::nat) < 10" by simp
qed

lemma print_server_status_ok:
  assumes "status_ok E"
  shows "\<exists>s'. print_server_status E s = Running s' \<and> quiet s s' \<and> held s' = held s"
proof -
  from assms obtain pb buffer status where
    "TRTSERVER_ServerStatus E = Inr pb" "pb_serialize pb = Inr buffer"
    "ServerStatus_ParseFromArray E buffer = Some status" "pb_delete pb = None"
    unfolding status_ok_def by blast
  then show ?thesis
    by (simp add: print_server_status_def log_info_def release_def quiet_def)
qed

lemma print_server_status_fails:
  assumes "\<not> status_ok E"
  shows "\<exists>s'. print_server_status E s = Exit 1 s' \<and> failed s s'"
proof (cases "TRTSERVER_ServerStatus E")
  case (Inl e)
  then show ?thesis by (simp add: print_server_status_def FAIL_IF_ERR_def failed_def)
next
  case pb: (Inr pb)
  show ?thesis
  proof (cases "pb_serialize pb")
    case (Inl e)
    with pb show ?thesis by (simp add: print_server_status_def FAIL_IF_ERR_def failed_def)
  next
    case buf: (Inr buffer)
    show ?thesis
    proof (cases "ServerStatus_ParseFromArray E buffer")
      case None
      with pb buf show ?thesis by (simp add: print_server_status_def FAIL_def failed_def)
    next
      case (Some status)
      with pb buf assms obtain e where "pb_delete pb = Some e"
        by (cases "pb_delete pb") (auto simp: status_ok_def)
      with pb buf Some show ?thesis
        by (simp add: print_server_status_def FAIL_IF_ERR_def failed_def log_info_def)
    qed
  qed
qed

lemma model_loop_ready:
  assumes "model_ready_at E k"
  shows "\<exists>s'. model_loop E k s = Some (Running s') \<and> quiet s s'
           \<and> held s' = H_ModelStatus k # held s"
  using assms
  by (subst model_loop.simps)
     (auto simp: model_ready_at_def model_state_at_def quiet_def Let_def
        split: sum.splits option.splits)

lemma model_loop_waiting:
  assumes "model_waiting_at E k"
  shows "\<exists>s1. model_loop E k s = model_loop E (Suc k) s1 \<and> quiet s s1 \<and> held s1 = held s"
  using assms
  by (subst model_loop.simps)
     (auto simp: model_waiting_at_def model_state_at_def quiet_def Let_def
        split: sum.splits option.splits intro!: exI)

lemma model_loop_error:
  assumes "\<not> model_ready_at E k" and "\<not> model_waiting_at E k"
  shows "\<exists>s'. model_loop E k s = Some (Exit 1 s') \<and> failed s s'"
  using assms
  by (subst model_loop.simps)
     (auto simp: model_ready_at_def model_waiting_at_def model_state_at_def failed_def Let_def
        FAIL_def FAIL_IF_ERR_def split: sum.splits option.splits)


text \<open>While the model is not ready and nothing fails, the loop goes on: it has no outcome.\<close>

lemma model_loop_returns_stop:
  assumes "model_loop E k s = Some out"
  shows "\<exists>j\<ge>k. \<not> model_waiting_at E j"
  using assms
proof (induction rule: model_loop.raw_induct [rotated 1, consumes 1])
  case (1 model_loop' E k s out)
  show ?case
  proof (cases "model_waiting_at E k")
    case False
    then show ?thesis by blast
  next
    case True
    then obtain r pb where *: "model_state_at E k = Some (r, pb)" "r \<noteq> MODEL_READY"
      "pb_delete pb = None"
      unfolding model_waiting_at_def by blast
    from * "1.hyps" obtain s1 where "model_loop' E (Suc k) s1 = Some out"
      by (auto simp: model_state_at_def Let_def split: sum.splits option.splits)
    from "1.IH" [OF this] obtain j where "Suc k \<le> j" "\<not> model_waiting_at E j" by blast
    then have "k \<le> j" by simp
    with \<open>\<not> model_waiting_at E j\<close> show ?thesis by blast
  qed
qed

lemma model_loop_never:
  assumes "\<forall>j\<ge>k. model_waiting_at E j"
  shows "model_loop E k s = None"
proof (cases "model_loop E k s")
  case None
  then show ?thesis .
next
  case (Some out)
  from model_loop_returns_stop [OF this] assms show ?thesis by blast
qed

lemma model_loop_from_ok:
  assumes "model_ready_at E n" and "\<forall>j. k \<le> j \<and> j < n \<longrightarrow> model_waiting_at E j" and "k \<le> n"
  shows "\<exists>s'. model_loop E k s = Some (Running s') \<and> quiet s s'
           \<and> held s' = H_ModelStatus n # held s"
  using assms
proof (induction "n - k" arbitrary: k s)
  case 0
  then have "k = n" by simp
  with "0.prems"(1) show ?case by (simp add: model_loop_ready)
next
  case (Suc d)
  then have lt: "k < n" by simp
  with Suc.prems have "model_waiting_at E k" by simp
  from model_loop_waiting [OF this, of s] obtain s1 where
    s1: "model_loop E k s = model_loop E (Suc k) s1" "quiet s s1" "held s1 = held s"
    by blast
  have "\<exists>s'. model_loop E (Suc k) s1 = Some (Running s') \<and> quiet s1 s'
          \<and> held s' = H_ModelStatus n # held s1"
    using Suc.hyps(2) Suc.prems lt by (intro Suc.hyps(1)) auto
  then obtain s' where "model_loop E (Suc k) s1 = Some (Running s')" "quiet s1 s'"
    "held s' = H_ModelStatus n # held s1"
    by blast
  with s1 show ?case by (auto intro: quiet_trans)
qed

lemma model_loop_from_fails:
  assumes "\<not> model_ready_at E n" and "\<not> model_waiting_at E n"
    and "\<forall>j. k \<le> j \<and> j < n \<longrightarrow> model_waiting_at E j" and "k \<le> n"
  shows "\<exists>s'. model_loop E k s = Some (Exit 1 s') \<and> failed s s'"
  using assms
proof (induction "n - k" arbitrary: k s)
  case 0
  then have "k = n" by simp
  with "0.prems"(1,2) show ?case by (simp add: model_loop_error)
next
  case (Suc d)
  then have lt: "k < n" by simp
  with Suc.prems have "model_waiting_at E k" by simp
  from model_loop_waiting [OF this, of s] obtain s1 where
    s1: "model_loop E k s = model_loop E (Suc k) s1" "quiet s s1"
    by blast
  have "\<exists>s'. model_loop E (Suc k) s1 = Some (Exit 1 s') \<and> failed s1 s'"
    using Suc.hyps(2) Suc.prems lt by (intro Suc.hyps(1)) auto
  then obtain s' where "model_loop E (Suc k) s1 = Some (Exit 1 s')" "failed s1 s'"
    by blast
  with s1 show ?case by (auto intro: quiet_failed)
qed

lemma model_cases: "model_ok E \<or> model_fails E \<or> (\<forall>k. model_waiting_at E k)"
proof (cases "\<forall>k. model_waiting_at E k")
  case True
  then show ?thesis by simp
next
  case False
  then have ex: "\<exists>n. \<not> model_waiting_at E n" by simp
  define n where "n = (LEAST n. \<not> model_waiting_at E n)"
  from ex have n: "\<not> model_waiting_at E n" unfolding n_def by (rule LeastI_ex)
  have before: "\<forall>k<n. model_waiting_at E k"
    using not_less_Least [of _ "\<lambda>n. \<not> model_waiting_at E n"] unfolding n_def by blast
  show ?thesis
  proof (cases "model_ready_at E n")
    case True
    with before have "model_ok E" unfolding model_ok_def by blast
    then show ?thesis by simp
  next
    case False
    with n before have "model_fails E" unfolding model_fails_def by blast
    then show ?thesis by simp
  qed
qed

lemma model_ready_not_waiting: "model_ready_at E k \<Longrightarrow> \<not> model_waiting_at E k"
  by (auto simp: model_ready_at_def model_waiting_at_def)

lemma model_ok_unique:
  assumes "model_ready_at E n" "\<forall>k<n. model_waiting_at E k"
    and "model_ready_at E m" "\<forall>k<m. model_waiting_at E k"
  shows "n = m"
proof (rule ccontr)
  assume "n \<noteq> m"
  then consider "n < m" | "m < n" by linarith
  then show False
    using assms model_ready_not_waiting by cases blast+
qed

lemma model_ok_exclusive: "model_ok E \<Longrightarrow> \<not> model_fails E \<and> \<not> (\<forall>k. model_waiting_at E k)"
  unfolding model_ok_def model_fails_def
  by (metis model_ready_not_waiting nat_neq_iff)

lemma model_fails_exclusive: "model_fails E \<Longrightarrow> \<not> (\<forall>k. model_waiting_at E k)"
  unfolding model_fails_def by blast

lemma model_loop_ok:
  assumes "model_ready_at E n" and "\<forall>k<n. model_waiting_at E k"
  shows "\<exists>s'. model_loop E 0 s = Some (Running s') \<and> quiet s s'
           \<and> held s' = H_ModelStatus n # held s"
  using assms by (intro model_loop_from_ok) auto

lemma model_loop_fails:
  assumes "model_fails E"
  shows "\<exists>s'. model_loop E 0 s = Some (Exit 1 s') \<and> failed s s'"
proof -
  from assms obtain n where "\<not> model_ready_at E n" "\<not> model_waiting_at E n"
    "\<forall>k<n. model_waiting_at E k"
    unfolding model_fails_def by blast
  then show ?thesis by (intro model_loop_from_fails [of E n]) auto
qed

lemma model_loop_hangs:
  assumes "\<forall>k. model_waiting_at E k"
  shows "model_loop E 0 s = None"
  using assms by (intro model_loop_never) simp


lemma names [simp]:
  "input0 = ''INPUT0''" "input1 = ''INPUT1''" "output0 = ''OUTPUT0''" "output1 = ''OUTPUT1''"
  by (simp_all add: input0_def input1_def output0_def output1_def request_header_def
      add_input_def add_output_def set_id_def set_batch_size_def empty_header_def)

lemma input0_data_list: "input0_data = [0, 1, 2, 3, 4, 5, 6, 7, 8, 9, 10, 11, 12, 13, 14, 15]"
  by code_simp

lemma input1_data_list: "input1_data = [1, 1, 1, 1, 1, 1, 1, 1, 1, 1, 1, 1, 1, 1, 1, 1]"
  by code_simp

lemma input0_data_eq: "input0_data = map of_nat [0..<16]"
  by (simp add: input0_data_list upt_rec)

lemma input1_data_eq: "input1_data = replicate 16 1"
  by (simp add: input1_data_list numeral_eq_Suc)

lemma length_input_data [simp]: "length input0_data = 16" "length input1_data = 16"
  by (simp_all add: input0_data_list input1_data_list)

lemma setup_request_ok:
  assumes "request_ok E"
  shows "\<exists>s'. setup_request E s = Running s' \<and> quiet s s'
           \<and> held s' = H_RequestProvider # H_Allocator # held s"
  using assms
  by (simp add: request_ok_def setup_request_def acquire_def quiet_def)

lemma setup_request_fails:
  assumes "\<not> request_ok E"
  shows "\<exists>s'. setup_request E s = Exit 1 s' \<and> failed s s'"
  using assms
  by (cases "TRTSERVER_ResponseAllocatorNew E";
      cases "TRTSERVER_InferenceRequestProviderNew E ''simple'' (- 1)
               (SerializeToString request_header)";
      cases "TRTSERVER_InferenceRequestProviderSetInputData E ''INPUT0'' input0_data 64
               TRTSERVER_MEMORY_CPU";
      cases "TRTSERVER_InferenceRequestProviderSetInputData E ''INPUT1'' input1_data 64
               TRTSERVER_MEMORY_CPU")
     (simp_all add: request_ok_def setup_request_def acquire_def FAIL_IF_ERR_def failed_def)


lemma print_response_header_ok:
  assumes "header_ok E resp"
  shows "\<exists>s'. print_response_header E resp s = Running s' \<and> quiet s s' \<and> held s' = held s"
proof -
  from assms obtain pb buffer header where
    "resp_header resp = Inr pb" "pb_serialize pb = Inr buffer"
    "InferResponseHeader_ParseFromArray E buffer = Some header" "pb_delete pb = None"
    unfolding header_ok_def by blast
  then show ?thesis
    by (simp add: print_response_header_def log_info_def release_def quiet_def)
qed

lemma print_response_header_fails:
  assumes "\<not> header_ok E resp"
  shows "\<exists>s'. print_response_header E resp s = Exit 1 s' \<and> failed s s'"
proof (cases "resp_header resp")
  case (Inl e)
  then show ?thesis by (simp add: print_response_header_def FAIL_IF_ERR_def failed_def)
next
  case pb: (Inr pb)
  show ?thesis
  proof (cases "pb_serialize pb")
    case (Inl e)
    with pb show ?thesis by (simp add: print_response_header_def FAIL_IF_ERR_def failed_def)
  next
    case buf: (Inr buffer)
    show ?thesis
    proof (cases "InferResponseHeader_ParseFromArray E buffer")
      case None
      with pb buf show ?thesis by (simp add: print_response_header_def FAIL_def failed_def)
    next
      case (Some header)
      with pb buf assms obtain e where "pb_delete pb = Some e"
        by (cases "pb_delete pb") (auto simp: header_ok_def)
      with pb buf Some show ?thesis
        by (simp add: print_response_header_def FAIL_IF_ERR_def failed_def log_info_def)
    qed
  qed
qed

lemma check_output_meta_ok:
  assumes "length (od_content out) = 64" and "od_memory_type out = TRTSERVER_MEMORY_CPU"
  shows "check_output_meta var out s = Running s"
  using assms by (simp add: check_output_meta_def)

lemma check_output_meta_fails:
  assumes "length (od_content out) \<noteq> 64 \<or> od_memory_type out \<noteq> TRTSERVER_MEMORY_CPU"
  shows "\<exists>s'. check_output_meta var out s = Exit 1 s' \<and> failed s s'"
  using assms by (auto simp: check_output_meta_def FAIL_def failed_def)

lemma int32_at_in_range:
  assumes "4 * i + 4 \<le> length bytes"
  shows "\<exists>v. int32_at bytes i = Some v"
proof -
  define xs where "xs = take 4 (drop (4 * i) bytes)"
  have "length xs = Suc (Suc (Suc (Suc 0)))" using assms by (simp add: xs_def)
  then obtain b0 b1 b2 b3 where "xs = [b0, b1, b2, b3]"
    by (auto simp: length_Suc_conv)
  then show ?thesis by (simp add: int32_at_def xs_def [symmetric])
qed

lemma compare_loop_done: "16 \<le> i \<Longrightarrow> compare_loop c0 c1 i s = Running s"
  by (subst compare_loop.simps) simp

lemma compare_loop_step:
  assumes "i < 16" and "elements_ok c0 c1 i"
  shows "\<exists>s1. compare_loop c0 c1 i s = compare_loop c0 c1 (Suc i) s1 \<and> quiet s s1
           \<and> held s1 = held s"
  using assms
  by (subst compare_loop.simps) (auto simp: elements_ok_def quiet_def Let_def intro!: exI)

lemma compare_loop_mismatch:
  assumes "i < 16" and "\<not> elements_ok c0 c1 i" and "length c0 = 64" and "length c1 = 64"
  shows "\<exists>s'. compare_loop c0 c1 i s = Exit 1 s' \<and> failed s s'"
proof -
  from assms(1,3) have "4 * i + 4 \<le> length c0" by simp
  then obtain r0 where r0: "int32_at c0 i = Some r0" using int32_at_in_range by blast
  from assms(1,4) have "4 * i + 4 \<le> length c1" by simp
  then obtain r1 where r1: "int32_at c1 i = Some r1" using int32_at_in_range by blast
  from assms(1,2) r0 r1 show ?thesis
    by (subst compare_loop.simps) (auto simp: elements_ok_def failed_def FAIL_def Let_def)
qed

lemma compare_loop_from_ok:
  assumes "\<forall>j. i \<le> j \<and> j < 16 \<longrightarrow> elements_ok c0 c1 j"
  shows "\<exists>s'. compare_loop c0 c1 i s = Running s' \<and> quiet s s' \<and> held s' = held s"
  using assms
proof (induction "16 - i" arbitrary: i s)
  case 0
  then show ?case by (simp add: compare_loop_done)
next
  case (Suc d)
  then have lt: "i < 16" by simp
  with Suc.prems have "elements_ok c0 c1 i" by simp
  from compare_loop_step [OF lt this, of s] obtain s1 where
    s1: "compare_loop c0 c1 i s = compare_loop c0 c1 (Suc i) s1" "quiet s s1" "held s1 = held s"
    by blast
  have "\<exists>s'. compare_loop c0 c1 (Suc i) s1 = Running s' \<and> quiet s1 s' \<and> held s' = held s1"
    using Suc.hyps(2) Suc.prems by (intro Suc.hyps(1)) auto
  then obtain s' where "compare_loop c0 c1 (Suc i) s1 = Running s'" "quiet s1 s'"
    "held s' = held s1" by blast
  with s1 show ?case by (auto intro: quiet_trans)
qed

lemma compare_loop_from_fails:
  assumes "\<not> (\<forall>j. i \<le> j \<and> j < 16 \<longrightarrow> elements_ok c0 c1 j)"
    and "length c0 = 64" and "length c1 = 64"
  shows "\<exists>s'. compare_loop c0 c1 i s = Exit 1 s' \<and> failed s s'"
  using assms(1)
proof (induction "16 - i" arbitrary: i s)
  case 0
  then show ?case by auto
next
  case (Suc d)
  then have lt: "i < 16" by simp
  show ?case
  proof (cases "elements_ok c0 c1 i")
    case False
    with lt assms(2,3) show ?thesis by (intro compare_loop_mismatch)
  next
    case True
    from compare_loop_step [OF lt this, of s] obtain s1 where
      s1: "compare_loop c0 c1 i s = compare_loop c0 c1 (Suc i) s1" "quiet s s1"
      by blast
    have no: "\<not> (\<forall>j. Suc i \<le> j \<and> j < 16 \<longrightarrow> elements_ok c0 c1 j)"
    proof
      assume a: "\<forall>j. Suc i \<le> j \<and> j < 16 \<longrightarrow> elements_ok c0 c1 j"
      have "\<forall>j. i \<le> j \<and> j < 16 \<longrightarrow> elements_ok c0 c1 j"
      proof (intro allI impI)
        fix j assume "i \<le> j \<and> j < 16"
        then show "elements_ok c0 c1 j" using a True by (cases "j = i") auto
      qed
      with Suc.prems show False by contradiction
    qed
    have "\<exists>s'. compare_loop c0 c1 (Suc i) s1 = Exit 1 s' \<and> failed s1 s'"
      using Suc.hyps(2) no by (intro Suc.hyps(1)) auto
    then obtain s' where "compare_loop c0 c1 (Suc i) s1 = Exit 1 s'" "failed s1 s'" by blast
    with s1 show ?thesis by (auto intro: quiet_failed)
  qed
qed

lemma check_outputs_ok:
  assumes "outputs_ok resp"
  shows "\<exists>s'. check_outputs resp s = Running s' \<and> quiet s s' \<and> held s' = held s"
proof -
  from assms obtain out0 out1 where
    o: "resp_output resp ''OUTPUT0'' = Inr out0" "resp_output resp ''OUTPUT1'' = Inr out1"
      "length (od_content out0) = 64" "od_memory_type out0 = TRTSERVER_MEMORY_CPU"
      "length (od_content out1) = 64" "od_memory_type out1 = TRTSERVER_MEMORY_CPU"
    and el: "\<forall>i<16. elements_ok (od_content out0) (od_content out1) i"
    unfolding outputs_ok_def elements_ok_def by blast
  from el have "\<forall>j. 0 \<le> j \<and> j < 16 \<longrightarrow> elements_ok (od_content out0) (od_content out1) j"
    by simp
  from compare_loop_from_ok [OF this, of s] o show ?thesis
    by (simp add: check_outputs_def check_output_meta_ok)
qed

lemma check_outputs_fails:
  assumes "\<not> outputs_ok resp"
  shows "\<exists>s'. check_outputs resp s = Exit 1 s' \<and> failed s s'"
proof (cases "resp_output resp ''OUTPUT0''")
  case (Inl e)
  then show ?thesis by (simp add: check_outputs_def FAIL_IF_ERR_def failed_def)
next
  case o0: (Inr out0)
  show ?thesis
  proof (cases "length (od_content out0) = 64 \<and> od_memory_type out0 = TRTSERVER_MEMORY_CPU")
    case False
    then have "length (od_content out0) \<noteq> 64 \<or> od_memory_type out0 \<noteq> TRTSERVER_MEMORY_CPU"
      by simp
    from check_output_meta_fails [OF this, of "''output0''" s] o0 show ?thesis
      by (auto simp: check_outputs_def)
  next
    case m0: True
    then have c0: "check_output_meta ''output0'' out0 s = Running s"
      by (simp add: check_output_meta_ok)
    show ?thesis
    proof (cases "resp_output resp ''OUTPUT1''")
      case (Inl e)
      with o0 c0 show ?thesis by (simp add: check_outputs_def FAIL_IF_ERR_def failed_def)
    next
      case o1: (Inr out1)
      show ?thesis
      proof (cases "length (od_content out1) = 64 \<and> od_memory_type out1 = TRTSERVER_MEMORY_CPU")
        case False
        then have "length (od_content out1) \<noteq> 64 \<or> od_memory_type out1 \<noteq> TRTSERVER_MEMORY_CPU"
          by simp
        from check_output_meta_fails [OF this, of "''output1''" s] o0 o1 c0 show ?thesis
          by (auto simp: check_outputs_def)
      next
        case m1: True
        then have c1: "check_output_meta ''output1'' out1 s = Running s"
          by (simp add: check_output_meta_ok)
        have "\<not> (\<forall>j. 0 \<le> j \<and> j < 16 \<longrightarrow> elements_ok (od_content out0) (od_content out1) j)"
          using assms o0 o1 m0 m1 unfolding outputs_ok_def elements_ok_def by auto
        from compare_loop_from_fails [OF this, of s] m0 m1 o0 o1 c0 c1 show ?thesis
          by (simp add: check_outputs_def)
      qed
    qed
  qed
qed


lemma seq_Running: "c s = Running s1 \<Longrightarrow> seq (c # cs) s = seq cs s1"
  by simp

lemma seq_Exit: "c s = Exit n s1 \<Longrightarrow> seq (c # cs) s = Exit n s1"
  by simp

lemma failed_held: "failed (s\<lparr>held := h\<rparr>) s' \<Longrightarrow> failed s s'"
  by (simp add: failed_def)

lemma quiet_held: "quiet (s\<lparr>held := h\<rparr>) s' \<Longrightarrow> quiet s s'"
  by (simp add: quiet_def)

lemma after_response_ok:
  assumes "response_ok E resp"
  shows "\<exists>s'. after_response E resp s = Exit 0 s' \<and> quiet s s'
           \<and> held s' = remove1 H_Server (remove1 H_Allocator (held s))"
proof -
  from assms have st: "resp_status resp = None" and h: "header_ok E resp"
    and o: "outputs_ok resp" and d: "resp_delete resp = None"
    and a: "TRTSERVER_ResponseAllocatorDelete E = None"
    unfolding response_ok_def by simp_all
  define s0 where "s0 = s\<lparr>held := H_Response # held s\<rparr>"
  from print_response_header_ok [OF h, of s0] obtain s1 where
    s1: "print_response_header E resp s0 = Running s1" "quiet s0 s1" "held s1 = held s0"
    by blast
  from check_outputs_ok [OF o, of s1] obtain s2 where
    s2: "check_outputs resp s1 = Running s2" "quiet s1 s2" "held s2 = held s1"
    by blast
  have "quiet s s2" using s1(2) s2(2) by (simp add: quiet_def s0_def)
  moreover have "held s2 = H_Response # held s" using s1(3) s2(3) by (simp add: s0_def)
  ultimately show ?thesis
    using st d a s1(1) s2(1)
    by (simp add: after_response_def acquire_def release_def return_0_def quiet_def
        s0_def [symmetric])
qed

lemma after_response_fails:
  assumes "\<not> response_ok E resp"
  shows "\<exists>s'. after_response E resp s = Exit 1 s' \<and> failed s s'"
proof -
  define s0 where "s0 = s\<lparr>held := H_Response # held s\<rparr>"
  have start: "after_response E resp s =
      seq [FAIL_IF_ERR (resp_status resp) ''response'', print_response_header E resp,
           check_outputs resp,
           FAIL_IF_ERR (resp_delete resp) ''deleting inference response'',
           release H_Response,
           FAIL_IF_ERR (TRTSERVER_ResponseAllocatorDelete E) ''deleting response allocator'',
           release H_Allocator, return_0] s0"
    by (simp add: after_response_def acquire_def s0_def)
  have fs: "failed s s'" if "failed s0 s'" for s'
    using that by (simp add: failed_def s0_def)
  show ?thesis
  proof (cases "resp_status resp")
    case (Some e)
    then show ?thesis unfolding start
      by (auto simp: FAIL_IF_ERR_def failed_def s0_def)
  next
    case st: None
    show ?thesis
    proof (cases "header_ok E resp")
      case False
      from print_response_header_fails [OF this, of s0] obtain s' where
        "print_response_header E resp s0 = Exit 1 s'" "failed s0 s'" by blast
      with st show ?thesis unfolding start by (auto intro: fs)
    next
      case h: True
      from print_response_header_ok [OF h, of s0] obtain s1 where
        s1: "print_response_header E resp s0 = Running s1" "quiet s0 s1" by blast
      show ?thesis
      proof (cases "outputs_ok resp")
        case False
        from check_outputs_fails [OF this, of s1] obtain s' where
          "check_outputs resp s1 = Exit 1 s'" "failed s1 s'" by blast
        with st s1 show ?thesis unfolding start by (auto intro: fs quiet_failed)
      next
        case o: True
        from check_outputs_ok [OF o, of s1] obtain s2 where
          s2: "check_outputs resp s1 = Running s2" "quiet s1 s2" by blast
        have q: "quiet s0 s2" using s1(2) s2(2) by (rule quiet_trans)
        show ?thesis
        proof (cases "resp_delete resp")
          case (Some e)
          with st s1 s2 q show ?thesis unfolding start
            by (auto simp: FAIL_IF_ERR_def failed_def quiet_def s0_def)
        next
          case d: None
          with assms st h o obtain e where "TRTSERVER_ResponseAllocatorDelete E = Some e"
            by (cases "TRTSERVER_ResponseAllocatorDelete E") (auto simp: response_ok_def)
          with st s1 s2 q d show ?thesis unfolding start
            by (auto simp: FAIL_IF_ERR_def failed_def quiet_def s0_def release_def)
        qed
      qed
    qed
  qed
qed


lemma infer_rejected:
  assumes "TRTSERVER_ServerInferAsync E = Rejected e"
  shows "\<exists>s'. infer E s = Some (Exit 1 s') \<and> error_log s' \<noteq> []
           \<and> trace s' = trace s @ [New_Promise (fresh (objs s))]"
  using assms
  by (simp add: infer_def new_promise_def get_future_def FAIL_IF_ERR_def Let_def)

lemma infer_provider_delete_fails:
  assumes "TRTSERVER_ServerInferAsync E = Accepted completion"
    and "TRTSERVER_InferenceRequestProviderDelete E = Some e"
  shows "\<exists>s'. infer E s = Some (Exit 1 s') \<and> error_log s' \<noteq> []
           \<and> trace s' = trace s @ [New_Promise (fresh (objs s))]"
  using assms
  by (simp add: infer_def new_promise_def get_future_def FAIL_IF_ERR_def Let_def)

lemma infer_never_completed:
  assumes "TRTSERVER_ServerInferAsync E = Accepted None"
    and "TRTSERVER_InferenceRequestProviderDelete E = None"
  shows "infer E s = None"
  using assms
  by (simp add: infer_def new_promise_def get_future_def release_def engine_completes_def
      future_get_def Let_def)

lemma infer_completed:
  assumes "TRTSERVER_ServerInferAsync E = Accepted (Some resp)"
    and "TRTSERVER_InferenceRequestProviderDelete E = None"
  shows "\<exists>s3. infer E s = Some (after_response E resp s3)
           \<and> trace s3 = trace s @ [New_Promise (fresh (objs s)),
                                    Set_Value (fresh (objs s)) resp,
                                    Delete_Promise (fresh (objs s))]
           \<and> error_log s3 = error_log s
           \<and> held s3 = remove1 H_RequestProvider (held s)"
  using assms
  by (simp add: infer_def new_promise_def get_future_def release_def engine_completes_def
      future_get_def Let_def InferComplete_def set_value_def delete_promise_def fresh_not_null
      update_conv')
     (rule exI, rule conjI, rule refl, simp)

lemma infer_completed_ok:
  assumes "TRTSERVER_ServerInferAsync E = Accepted (Some resp)"
    and "TRTSERVER_InferenceRequestProviderDelete E = None"
    and "response_ok E resp"
  shows "\<exists>s'. infer E s = Some (Exit 0 s')
           \<and> trace s' = trace s @ [New_Promise (fresh (objs s)),
                                    Set_Value (fresh (objs s)) resp,
                                    Delete_Promise (fresh (objs s))]
           \<and> error_log s' = error_log s
           \<and> held s' = remove1 H_Server (remove1 H_Allocator (remove1 H_RequestProvider (held s)))"
proof -
  from infer_completed [OF assms(1,2), of s] obtain s3 where
    s3: "infer E s = Some (after_response E resp s3)"
      "trace s3 = trace s @ [New_Promise (fresh (objs s)), Set_Value (fresh (objs s)) resp,
                             Delete_Promise (fresh (objs s))]"
      "error_log s3 = error_log s" "held s3 = remove1 H_RequestProvider (held s)"
    by blast
  from after_response_ok [OF assms(3), of s3] obtain s' where
    "after_response E resp s3 = Exit 0 s'" "quiet s3 s'"
    "held s' = remove1 H_Server (remove1 H_Allocator (held s3))"
    by blast
  with s3 show ?thesis by (simp add: quiet_def)
qed

lemma infer_completed_fails:
  assumes "TRTSERVER_ServerInferAsync E = Accepted (Some resp)"
    and "TRTSERVER_InferenceRequestProviderDelete E = None"
    and "\<not> response_ok E resp"
  shows "\<exists>s'. infer E s = Some (Exit 1 s') \<and> error_log s' \<noteq> []
           \<and> trace s' = trace s @ [New_Promise (fresh (objs s)),
                                    Set_Value (fresh (objs s)) resp,
                                    Delete_Promise (fresh (objs s))]"
proof -
  from infer_completed [OF assms(1,2), of s] obtain s3 where
    s3: "infer E s = Some (after_response E resp s3)"
      "trace s3 = trace s @ [New_Promise (fresh (objs s)), Set_Value (fresh (objs s)) resp,
                             Delete_Promise (fresh (objs s))]"
    by blast
  from after_response_fails [OF assms(3), of s3] obtain s' where
    "after_response E resp s3 = Exit 1 s'" "failed s3 s'"
    by blast
  with s3 show ?thesis by (simp add: failed_def)
qed


lemma parse_commandline_eq:
  "parse_commandline argv0 opts p s =
     (if Opt_unknown \<in> set opts then Inl (Usage argv0 [] s)
      else Inr (last (p # [optarg. Opt_r optarg \<leftarrow> opts])))"
proof (induction opts arbitrary: p)
  case Nil
  then show ?case by simp
next
  case (Cons x xs)
  then show ?case by (cases x) auto
qed

lemma parse_commandline_path:
  "Opt_unknown \<notin> set opts \<Longrightarrow> parse_commandline argv0 opts [] s = Inr (path_of opts)"
  by (simp add: parse_commandline_eq path_of_def)

lemma initial_state_fields [simp]:
  "objs (initial_state mem) = []" "shared (initial_state mem) = []"
  "trace (initial_state mem) = []" "error_log (initial_state mem) = []"
  "held (initial_state mem) = []"
  by (simp_all add: initial_state_def)

lemma main_bad_option:
  assumes "bad_option opts"
  shows "\<exists>s. main E mem argv0 opts = Some (Exit 1 s) \<and> error_log s \<noteq> [] \<and> trace s = []"
proof -
  obtain s where "Usage argv0 [] (initial_state mem) = Exit 1 s" "failed (initial_state mem) s"
    using Usage_exits by blast
  with assms show ?thesis
    by (simp add: main_def parse_commandline_eq bad_option_def failed_def)
qed

lemma boot_runs:
  assumes "boot_ok E opts"
  shows "\<exists>s1. seq [check_path argv0 (path_of opts), create_server E (path_of opts),
                   health_loop E 0, print_server_status E] s = Running s1
           \<and> quiet s s1 \<and> held s1 = H_Server # held s"
proof -
  from assms have a: "startup_ok E (path_of opts)" and b: "health_ok E" and c: "status_ok E"
    by (simp_all add: boot_ok_def)
  from create_server_ok [OF a, of argv0 s] obtain s1 where
    s1: "seq [check_path argv0 (path_of opts), create_server E (path_of opts)] s = Running s1"
      "quiet s s1" "held s1 = H_Server # held s" by blast
  from health_loop_ok [OF b, of s1] obtain s2 where
    s2: "health_loop E 0 s1 = Running s2" "quiet s1 s2" "held s2 = held s1" by blast
  from print_server_status_ok [OF c, of s2] obtain s3 where
    s3: "print_server_status E s2 = Running s3" "quiet s2 s3" "held s3 = held s2" by blast
  have "quiet s s3" using s1(2) s2(2) s3(2) by (blast intro: quiet_trans)
  with s1 s2 s3 show ?thesis by (auto split: outcome.splits)
qed

lemma boot_fails:
  assumes "\<not> bad_option opts" and "\<not> boot_ok E opts"
  shows "\<exists>s'. seq [check_path argv0 (path_of opts), create_server E (path_of opts),
                   health_loop E 0, print_server_status E] s = Exit 1 s' \<and> failed s s'"
proof (cases "startup_ok E (path_of opts)")
  case False
  from create_server_fails [OF this, of argv0 s] obtain s' where
    "seq [check_path argv0 (path_of opts), create_server E (path_of opts)] s = Exit 1 s'"
    "failed s s'" by blast
  then show ?thesis by (auto split: outcome.splits)
next
  case a: True
  from create_server_ok [OF a, of argv0 s] obtain s1 where
    s1: "seq [check_path argv0 (path_of opts), create_server E (path_of opts)] s = Running s1"
      "quiet s s1" by blast
  show ?thesis
  proof (cases "health_ok E")
    case False
    from health_loop_fails [OF this, of s1] obtain s' where
      "health_loop E 0 s1 = Exit 1 s'" "failed s1 s'" by blast
    with s1 have "health_loop E 0 s1 = Exit 1 s'" "failed s s'"
      by (auto intro: quiet_failed)
    with s1(1) show ?thesis by (auto split: outcome.splits)
  next
    case b: True
    from health_loop_ok [OF b, of s1] obtain s2 where
      s2: "health_loop E 0 s1 = Running s2" "quiet s1 s2" by blast
    from assms a b have "\<not> status_ok E" by (simp add: boot_ok_def)
    from print_server_status_fails [OF this, of s2] obtain s' where
      "print_server_status E s2 = Exit 1 s'" "failed s2 s'" by blast
    with s1 s2 have "print_server_status E s2 = Exit 1 s'" "failed s s'"
      by (auto intro: quiet_failed dest: quiet_trans)
    with s1(1) s2(1) show ?thesis by (auto split: outcome.splits)
  qed
qed


lemma serve_hangs:
  assumes "\<forall>k. model_waiting_at E k"
  shows "serve E s = None"
  using model_loop_hangs [OF assms, of s] by (simp add: serve_def)

lemma serve_model_fails:
  assumes "model_fails E"
  shows "\<exists>s'. serve E s = Some (Exit 1 s') \<and> failed s s'"
proof -
  from model_loop_fails [OF assms, of s] obtain s' where
    "model_loop E 0 s = Some (Exit 1 s')" "failed s s'" by blast
  then show ?thesis by (simp add: serve_def)
qed

lemma serve_request_fails:
  assumes "model_ok E" and "\<not> request_ok E"
  shows "\<exists>s'. serve E s = Some (Exit 1 s') \<and> failed s s'"
proof -
  from assms(1) obtain n where "model_ready_at E n" "\<forall>k<n. model_waiting_at E k"
    unfolding model_ok_def by blast
  from model_loop_ok [OF this, of s] obtain s2 where
    s2: "model_loop E 0 s = Some (Running s2)" "quiet s s2" by blast
  from setup_request_fails [OF assms(2), of s2] obtain s' where
    "setup_request E s2 = Exit 1 s'" "failed s2 s'" by blast
  with s2 show ?thesis by (auto simp: serve_def intro: quiet_failed)
qed

lemma serve_infer:
  assumes "model_ready_at E n" and "\<forall>k<n. model_waiting_at E k" and "request_ok E"
  shows "\<exists>s3. serve E s = infer E s3 \<and> quiet s s3
           \<and> held s3 = H_RequestProvider # H_Allocator # H_ModelStatus n # held s"
proof -
  from model_loop_ok [OF assms(1,2), of s] obtain s2 where
    s2: "model_loop E 0 s = Some (Running s2)" "quiet s s2"
      "held s2 = H_ModelStatus n # held s" by blast
  from setup_request_ok [OF assms(3), of s2] obtain s3 where
    "setup_request E s2 = Running s3" "quiet s2 s3"
    "held s3 = H_RequestProvider # H_Allocator # held s2" by blast
  with s2 show ?thesis by (auto simp: serve_def intro: quiet_trans)
qed

text \<open>The outcome of the program, case by case.\<close>

lemma main_booted:
  assumes "boot_ok E opts"
  shows "\<exists>s1. main E mem argv0 opts = serve E s1 \<and> objs s1 = [] \<and> trace s1 = []
           \<and> error_log s1 = [] \<and> held s1 = [H_Server]"
proof -
  from assms have nb: "Opt_unknown \<notin> set opts" by (simp add: boot_ok_def bad_option_def)
  from boot_runs [OF assms, of argv0 "initial_state mem"] obtain s1 where
    "seq [check_path argv0 (path_of opts), create_server E (path_of opts),
          health_loop E 0, print_server_status E] (initial_state mem) = Running s1"
    "quiet (initial_state mem) s1" "held s1 = H_Server # held (initial_state mem)" by blast
  then have "main E mem argv0 opts = serve E s1" "quiet (initial_state mem) s1"
    "held s1 = [H_Server]"
    unfolding main_def parse_commandline_path [OF nb] by (simp_all only: sum.case outcome.case initial_state_fields)
  then show ?thesis by (auto simp: quiet_def)
qed

lemma main_not_booted:
  assumes "\<not> boot_ok E opts"
  shows "\<exists>s. main E mem argv0 opts = Some (Exit 1 s) \<and> error_log s \<noteq> [] \<and> trace s = []"
proof (cases "bad_option opts")
  case True
  then show ?thesis by (rule main_bad_option)
next
  case False
  then have nb: "Opt_unknown \<notin> set opts" by (simp add: bad_option_def)
  from boot_fails [OF False assms, of argv0 "initial_state mem"] obtain s' where
    "seq [check_path argv0 (path_of opts), create_server E (path_of opts),
          health_loop E 0, print_server_status E] (initial_state mem) = Exit 1 s'"
    "failed (initial_state mem) s'" by blast
  then have "main E mem argv0 opts = Some (Exit 1 s')" "failed (initial_state mem) s'"
    unfolding main_def parse_commandline_path [OF nb] by (simp_all only: sum.case outcome.case)
  then show ?thesis by (auto simp: failed_def)
qed

lemma fresh_Nil [simp]: "fresh [] = 1"
  by (simp add: fresh_def)

lemma main_succeeds:
  assumes "all_steps_succeed E opts"
  shows "\<exists>s n resp. main E mem argv0 opts = Some (Exit 0 s) \<and> error_log s = []
           \<and> held s = [H_ModelStatus n] \<and> model_ready_at E n \<and> (\<forall>k<n. model_waiting_at E k)
           \<and> TRTSERVER_ServerInferAsync E = Accepted (Some resp) \<and> response_ok E resp
           \<and> trace s = [New_Promise 1, Set_Value 1 resp, Delete_Promise 1]"
proof -
  from assms obtain resp n where b: "boot_ok E opts" and r: "request_ok E"
    and n: "model_ready_at E n" "\<forall>k<n. model_waiting_at E k"
    and a: "TRTSERVER_ServerInferAsync E = Accepted (Some resp)" and ok: "response_ok E resp"
    and d: "TRTSERVER_InferenceRequestProviderDelete E = None"
    unfolding all_steps_succeed_def model_ok_def by blast
  from main_booted [OF b, of mem argv0] obtain s1 where
    s1: "main E mem argv0 opts = serve E s1" "objs s1 = []" "trace s1 = []"
      "error_log s1 = []" "held s1 = [H_Server]" by blast
  from serve_infer [OF n r, of s1] obtain s3 where
    s3: "serve E s1 = infer E s3" "quiet s1 s3"
      "held s3 = H_RequestProvider # H_Allocator # H_ModelStatus n # held s1" by blast
  from infer_completed_ok [OF a d ok, of s3] obtain s' where
    "infer E s3 = Some (Exit 0 s')"
    "trace s' = trace s3 @ [New_Promise (fresh (objs s3)), Set_Value (fresh (objs s3)) resp,
                            Delete_Promise (fresh (objs s3))]"
    "error_log s' = error_log s3"
    "held s' = remove1 H_Server (remove1 H_Allocator (remove1 H_RequestProvider (held s3)))"
    by blast
  with s1 s3 n a ok show ?thesis by (simp add: quiet_def)
qed

lemma main_hangs:
  assumes "never_exits E opts"
  shows "main E mem argv0 opts = None"
proof -
  from assms have b: "boot_ok E opts" by (simp add: never_exits_def)
  from main_booted [OF b, of mem argv0] obtain s1 where
    s1: "main E mem argv0 opts = serve E s1" by blast
  from assms consider "\<forall>k. model_waiting_at E k"
    | "model_ok E" "request_ok E" "TRTSERVER_ServerInferAsync E = Accepted None"
      "TRTSERVER_InferenceRequestProviderDelete E = None"
    by (auto simp: never_exits_def)
  then show ?thesis
  proof cases
    case 1
    with s1 show ?thesis by (simp add: serve_hangs)
  next
    case 2
    from 2(1) obtain n where "model_ready_at E n" "\<forall>k<n. model_waiting_at E k"
      unfolding model_ok_def by blast
    from serve_infer [OF this 2(2), of s1] obtain s3 where "serve E s1 = infer E s3" by blast
    with s1 2(3,4) show ?thesis by (simp add: infer_never_completed)
  qed
qed

lemma main_fails:
  assumes "\<not> all_steps_succeed E opts" and "\<not> never_exits E opts"
  shows "\<exists>s. main E mem argv0 opts = Some (Exit 1 s) \<and> error_log s \<noteq> []
           \<and> (trace s = [] \<or> trace s = [New_Promise 1]
              \<or> (\<exists>resp. TRTSERVER_ServerInferAsync E = Accepted (Some resp)
                    \<and> trace s = [New_Promise 1, Set_Value 1 resp, Delete_Promise 1]))"
proof (cases "boot_ok E opts")
  case False
  from main_not_booted [OF this, of mem argv0] show ?thesis by blast
next
  case b: True
  from main_booted [OF b, of mem argv0] obtain s1 where
    s1: "main E mem argv0 opts = serve E s1" "objs s1 = []" "trace s1 = []"
      "error_log s1 = []" by blast
  from assms(2) b have nw: "\<not> (\<forall>k. model_waiting_at E k)" by (simp add: never_exits_def)
  show ?thesis
  proof (cases "model_ok E")
    case False
    with nw model_cases [of E] have "model_fails E" by blast
    from serve_model_fails [OF this, of s1] s1 show ?thesis by (auto simp: failed_def)
  next
    case m: True
    show ?thesis
    proof (cases "request_ok E")
      case False
      from serve_request_fails [OF m this, of s1] s1 show ?thesis by (auto simp: failed_def)
    next
      case r: True
      from m obtain n where "model_ready_at E n" "\<forall>k<n. model_waiting_at E k"
        unfolding model_ok_def by blast
      from serve_infer [OF this r, of s1] obtain s3 where
        "serve E s1 = infer E s3" "quiet s1 s3" by blast
      with s1 have s3: "main E mem argv0 opts = infer E s3" "objs s3 = []" "trace s3 = []"
        by (simp_all add: quiet_def)
      show ?thesis
      proof (cases "TRTSERVER_ServerInferAsync E")
        case (Rejected e)
        from infer_rejected [OF this, of s3] s3 show ?thesis by auto
      next
        case acc: (Accepted completion)
        show ?thesis
        proof (cases "TRTSERVER_InferenceRequestProviderDelete E")
          case (Some e)
          from infer_provider_delete_fails [OF acc this, of s3] s3 show ?thesis by auto
        next
          case d: None
          show ?thesis
          proof (cases completion)
            case None
            with acc d b m r assms(2) have False by (simp add: never_exits_def)
            then show ?thesis ..
          next
            case (Some resp)
            with acc have a: "TRTSERVER_ServerInferAsync E = Accepted (Some resp)" by simp
            with assms(1) b m r d have "\<not> response_ok E resp"
              by (auto simp: all_steps_succeed_def)
            from infer_completed_fails [OF a d this, of s3] s3 a show ?thesis by auto
          qed
        qed
      qed
    qed
  qed
qed

lemma succeed_not_never: "all_steps_succeed E opts \<Longrightarrow> \<not> never_exits E opts"
  using model_ok_exclusive [of E] by (auto simp: all_steps_succeed_def never_exits_def)

subsection \<open>The outcome of a run\<close>

lemma exit_status_Some: "exit_status r = Some n \<longleftrightarrow> (\<exists>s. r = Some (Exit n s))"
  by (auto simp: exit_status_def split: option.splits outcome.splits)

lemma main_outcome:
  "(all_steps_succeed E opts \<and> \<not> never_exits E opts
      \<and> (\<exists>s. main E mem argv0 opts = Some (Exit 0 s) \<and> error_log s = []))
   \<or> (never_exits E opts \<and> \<not> all_steps_succeed E opts \<and> main E mem argv0 opts = None)
   \<or> (\<not> all_steps_succeed E opts \<and> \<not> never_exits E opts
      \<and> (\<exists>s. main E mem argv0 opts = Some (Exit 1 s) \<and> error_log s \<noteq> []))"
proof (cases "all_steps_succeed E opts")
  case True
  from main_succeeds [OF True, of mem argv0] succeed_not_never [OF True] True
  show ?thesis by blast
next
  case False
  show ?thesis
  proof (cases "never_exits E opts")
    case True
    from main_hangs [OF True, of mem argv0] True False show ?thesis by blast
  next
    case ne: False
    from main_fails [OF False ne, of mem argv0] False ne show ?thesis by blast
  qed
qed

text \<open>
  The runs that finish: the process exits with status 0 exactly when every step succeeds
  (\<open>all_steps_succeed\<close>), then with nothing on the error stream; every other exit has
  status 1 and a diagnostic on the error stream. The process exits unless the model is
  never ready or the accepted request is never completed (\<open>never_exits\<close>).
\<close>

lemma finished_runs:
  "((\<exists>s. main E mem argv0 opts = Some (Exit 0 s)) \<longleftrightarrow> all_steps_succeed E opts)
   \<and> (\<forall>out. main E mem argv0 opts = Some out \<longrightarrow>
         (\<exists>s. out = Exit 0 s \<and> error_log s = []) \<or> (\<exists>s. out = Exit 1 s \<and> error_log s \<noteq> []))
   \<and> (main E mem argv0 opts = None \<longleftrightarrow> never_exits E opts)"
  using main_outcome [of E opts mem argv0] by auto

text \<open>Two runs: one that succeeds, and one without the repository path.\<close>

lemma good_engine_run:
  "exit_status (main good_engine 1024 ''simple'' [Opt_r ''/models'']) = Some 0"
  by code_simp

lemma good_engine_no_path:
  "exit_status (main good_engine 1024 ''simple'' []) = Some 1"
  by code_simp

lemma finished_runs_of_good_engine:
  "all_steps_succeed good_engine [Opt_r ''/models'']
   \<and> exit_status (main good_engine 1024 ''simple'' [Opt_r ''/models'']) = Some 0
   \<and> errors_at_exit (main good_engine 1024 ''simple'' [Opt_r ''/models'']) = []
   \<and> \<not> all_steps_succeed good_engine []
   \<and> exit_status (main good_engine 1024 ''simple'' []) = Some 1
   \<and> errors_at_exit (main good_engine 1024 ''simple'' []) \<noteq> []"
  using finished_runs [of good_engine 1024 "''simple''" "[Opt_r ''/models'']"]
    finished_runs [of good_engine 1024 "''simple''" "[]"]
    good_engine_run good_engine_no_path
  by (auto simp: exit_status_Some errors_at_exit_def final_state_def)

subsection \<open>The checks on the outputs\<close>

text \<open>
  Claim C4: when the program exits with status 0, the request was completed with a
  response whose outputs \<open>OUTPUT0\<close> and \<open>OUTPUT1\<close> are both in CPU memory, both of
  64 bytes, and hold at every index below 16 the sum and the difference of the inputs
  (\<open>outputs_ok\<close>); the inputs are 0 to 15 and sixteen ones. The checks pass on such a
  response, and on any other one they end the process with status 1 and a diagnostic.
\<close>

theorem outputs_checked:
  "(main E mem argv0 opts = Some (Exit 0 s) \<longrightarrow>
      (\<exists>resp. TRTSERVER_ServerInferAsync E = Accepted (Some resp) \<and> outputs_ok resp))
   \<and> (outputs_ok resp \<longrightarrow> (\<exists>s'. check_outputs resp s0 = Running s'))
   \<and> (\<not> outputs_ok resp \<longrightarrow> (\<exists>s'. check_outputs resp s0 = Exit 1 s' \<and> error_log s' \<noteq> []))
   \<and> input0_data = map of_nat [0..<16] \<and> input1_data = replicate 16 1"
proof (intro conjI impI)
  assume "main E mem argv0 opts = Some (Exit 0 s)"
  with main_outcome [of E opts mem argv0] have "all_steps_succeed E opts" by auto
  then show "\<exists>resp. TRTSERVER_ServerInferAsync E = Accepted (Some resp) \<and> outputs_ok resp"
    by (auto simp: all_steps_succeed_def response_ok_def)
next
  assume "outputs_ok resp"
  from check_outputs_ok [OF this, of s0] show "\<exists>s'. check_outputs resp s0 = Running s'" by blast
next
  assume "\<not> outputs_ok resp"
  from check_outputs_fails [OF this, of s0]
  show "\<exists>s'. check_outputs resp s0 = Exit 1 s' \<and> error_log s' \<noteq> []"
    by (auto simp: failed_def)
next
  show "input0_data = map of_nat [0..<16]" by (rule input0_data_eq)
  show "input1_data = replicate 16 1" by (rule input1_data_eq)
qed

lemma wrong_response_checked:
  "exit_status (Some (check_outputs wrong_response (initial_state 1024))) = Some 1"
  by code_simp

theorem outputs_checked_witness:
  "exit_status (main good_engine 1024 ''simple'' [Opt_r ''/models'']) = Some 0
   \<and> outputs_ok good_response
   \<and> \<not> outputs_ok wrong_response
   \<and> exit_status (Some (check_outputs wrong_response (initial_state 1024))) = Some 1"
proof -
  from good_engine_run obtain s where
    s: "main good_engine 1024 ''simple'' [Opt_r ''/models''] = Some (Exit 0 s)"
    by (auto simp: exit_status_Some)
  have a: "TRTSERVER_ServerInferAsync good_engine = Accepted (Some good_response)"
    by (simp add: good_engine_def)
  from outputs_checked [of good_engine 1024 "''simple''" "[Opt_r ''/models'']" s good_response
      "initial_state 1024"] s a
  have ok: "outputs_ok good_response" by auto
  from outputs_checked [of good_engine 1024 "''simple''" "[Opt_r ''/models'']" s wrong_response
      "initial_state 1024"] wrong_response_checked
  have "\<not> outputs_ok wrong_response" by (auto simp: exit_status_def)
  with ok good_engine_run wrong_response_checked show ?thesis by simp
qed

subsection \<open>The promise\<close>

lemma main_trace:
  assumes "main E mem argv0 opts = Some (Exit n s)"
  shows "trace s = [] \<or> trace s = [New_Promise 1]
         \<or> (\<exists>resp. TRTSERVER_ServerInferAsync E = Accepted (Some resp)
               \<and> trace s = [New_Promise 1, Set_Value 1 resp, Delete_Promise 1])"
proof (cases "all_steps_succeed E opts")
  case True
  from main_succeeds [OF True, of mem argv0] assms show ?thesis by auto
next
  case False
  show ?thesis
  proof (cases "never_exits E opts")
    case True
    from main_hangs [OF True, of mem argv0] assms show ?thesis by simp
  next
    case ne: False
    from main_fails [OF False ne, of mem argv0] assms show ?thesis by auto
  qed
qed

text \<open>
  Claim C5: called with a live promise that has no value yet, \<open>InferComplete\<close> first
  sets the value of the promise to the response and then deletes the promise, once; and
  in a run of \<open>main\<close> the promise it allocates is deleted by that call of the callback
  alone: the memory operations of a finished run are none, or the allocation of the
  promise, or the allocation followed by the callback's two operations.
\<close>

theorem promise_freed_in_callback:
  "(userp \<noteq> nullptr \<and> map_of (objs s) userp = Some (Promise c) \<and> map_of (shared s) c = Some None
      \<longrightarrow> (\<exists>s'. InferComplete server resp userp s = Inr s'
               \<and> trace s' = trace s @ [Set_Value userp resp, Delete_Promise userp]
               \<and> map_of (shared s') c = Some (Some resp)
               \<and> map_of (objs s') userp = None))
   \<and> (main E mem argv0 opts = Some (Exit n s1) \<longrightarrow>
        trace s1 = [] \<or> trace s1 = [New_Promise 1]
        \<or> (\<exists>r. TRTSERVER_ServerInferAsync E = Accepted (Some r)
              \<and> trace s1 = [New_Promise 1, Set_Value 1 r, Delete_Promise 1]))"
proof (intro conjI impI)
  assume "userp \<noteq> nullptr \<and> map_of (objs s) userp = Some (Promise c)
          \<and> map_of (shared s) c = Some None"
  then show "\<exists>s'. InferComplete server resp userp s = Inr s'
               \<and> trace s' = trace s @ [Set_Value userp resp, Delete_Promise userp]
               \<and> map_of (shared s') c = Some (Some resp)
               \<and> map_of (objs s') userp = None"
    by (simp add: InferComplete_live update_conv' delete_conv')
next
  assume "main E mem argv0 opts = Some (Exit n s1)"
  then show "trace s1 = [] \<or> trace s1 = [New_Promise 1]
        \<or> (\<exists>r. TRTSERVER_ServerInferAsync E = Accepted (Some r)
              \<and> trace s1 = [New_Promise 1, Set_Value 1 r, Delete_Promise 1])"
    by (rule main_trace)
qed

lemma good_engine_trace_length:
  "length (trace_at_exit (main good_engine 1024 ''simple'' [Opt_r ''/models''])) = 3"
  by code_simp

theorem promise_freed_in_callback_witness:
  "trace_at_exit (main good_engine 1024 ''simple'' [Opt_r ''/models''])
     = [New_Promise 1, Set_Value 1 good_response, Delete_Promise 1]
   \<and> (\<exists>s'. InferComplete H_Server good_response 1 (snd (new_promise (initial_state 1024))) = Inr s'
          \<and> trace s' = [New_Promise 1, Set_Value 1 good_response, Delete_Promise 1]
          \<and> map_of (objs s') 1 = None)"
proof -
  from good_engine_run obtain s where
    s: "main good_engine 1024 ''simple'' [Opt_r ''/models''] = Some (Exit 0 s)"
    by (auto simp: exit_status_Some)
  with good_engine_trace_length have len: "length (trace s) = 3"
    by (simp add: trace_at_exit_def final_state_def)
  have a: "TRTSERVER_ServerInferAsync good_engine = Accepted (Some good_response)"
    by (simp add: good_engine_def)
  define s0 where "s0 = snd (new_promise (initial_state 1024))"
  have pre: "(1::nat) \<noteq> nullptr \<and> map_of (objs s0) 1 = Some (Promise 1)
             \<and> map_of (shared s0) 1 = Some None"
    and tr: "trace s0 = [New_Promise 1]"
    by (simp_all add: s0_def new_promise_def initial_state_def fresh_def)
  from promise_freed_in_callback [of 1 s0 1 H_Server good_response good_engine 1024 "''simple''"
      "[Opt_r ''/models'']" 0 s] pre s a len tr
  show ?thesis
    unfolding s0_def [symmetric] by (auto simp: trace_at_exit_def final_state_def)
qed


subsection \<open>The handles of the engine\<close>

text \<open>
  Claim C9, as stated: every handle is released on every exit path. When the engine
  refuses the repository path, \<open>FAIL_IF_ERR\<close> ends the process with the server options
  still held.
\<close>

theorem handles_held_at_failure_exit:
  "exit_status (main no_repository_engine 1024 ''simple'' [Opt_r ''/models'']) = Some 1
   \<and> held_at_exit (main no_repository_engine 1024 ''simple'' [Opt_r ''/models''])
       = [H_ServerOptions]"
  by code_simp

text \<open>
  Claim C9, amended: when \<open>main\<close> returns 0, every handle it acquired has been
  released, the status protobuf of the last status query of the model aside (the query
  that found the model ready); and a failure exit (\<open>FAIL\<close>, \<open>FAIL_IF_ERR\<close>,
  \<open>Usage\<close>) ends the process with the handles held as they are.
\<close>

theorem handles_released_on_success:
  "(main E mem argv0 opts = Some (Exit 0 s) \<longrightarrow>
      (\<exists>n. model_ready_at E n \<and> (\<forall>k<n. model_waiting_at E k)
           \<and> (\<forall>h \<in> set (held s). h = H_ModelStatus n)))
   \<and> (\<exists>s'. FAIL msg s0 = Exit 1 s' \<and> held s' = held s0)
   \<and> (\<exists>s'. FAIL_IF_ERR (Some e) msg s0 = Exit 1 s' \<and> held s' = held s0)
   \<and> (\<exists>s'. Usage argv0 msg s0 = Exit 1 s' \<and> held s' = held s0)"
proof (intro conjI impI)
  assume m: "main E mem argv0 opts = Some (Exit 0 s)"
  with main_outcome [of E opts mem argv0] have "all_steps_succeed E opts" by auto
  from main_succeeds [OF this, of mem argv0] m
  show "\<exists>n. model_ready_at E n \<and> (\<forall>k<n. model_waiting_at E k)
           \<and> (\<forall>h \<in> set (held s). h = H_ModelStatus n)"
    by auto
next
  show "\<exists>s'. FAIL msg s0 = Exit 1 s' \<and> held s' = held s0"
    using FAIL_exits [of msg s0] by blast
  show "\<exists>s'. FAIL_IF_ERR (Some e) msg s0 = Exit 1 s' \<and> held s' = held s0"
    using FAIL_IF_ERR_Some [of e msg s0] by blast
  show "\<exists>s'. Usage argv0 msg s0 = Exit 1 s' \<and> held s' = held s0"
    using Usage_exits [of argv0 msg s0] by blast
qed

lemma good_engine_held:
  "held_at_exit (main good_engine 1024 ''simple'' [Opt_r ''/models'']) = [H_ModelStatus 1]"
  by code_simp

theorem handles_released_on_success_witness:
  "exit_status (main good_engine 1024 ''simple'' [Opt_r ''/models'']) = Some 0
   \<and> model_ready_at good_engine 1
   \<and> H_Server \<notin> set (held_at_exit (main good_engine 1024 ''simple'' [Opt_r ''/models'']))
   \<and> H_Allocator \<notin> set (held_at_exit (main good_engine 1024 ''simple'' [Opt_r ''/models'']))
   \<and> H_Response \<notin> set (held_at_exit (main good_engine 1024 ''simple'' [Opt_r ''/models'']))"
proof -
  from good_engine_run obtain s where
    s: "main good_engine 1024 ''simple'' [Opt_r ''/models''] = Some (Exit 0 s)"
    by (auto simp: exit_status_Some)
  with good_engine_held have h: "held s = [H_ModelStatus 1]"
    by (simp add: held_at_exit_def final_state_def)
  from handles_released_on_success [of good_engine 1024 "''simple''" "[Opt_r ''/models'']" s
      "''m''" "initial_state 1024" "Engine_Error ''c'' ''m''"] s h
  have "model_ready_at good_engine 1" by auto
  with good_engine_run good_engine_held show ?thesis by simp
qed

subsection \<open>A model that is never ready\<close>

lemma never_ready_engine_boots: "boot_ok never_ready_engine [Opt_r ''/models'']"
proof -
  have "healthy_at never_ready_engine 2"
    by (simp add: healthy_at_def never_ready_engine_def good_engine_def)
  moreover have "unhealthy_at never_ready_engine k" if "k < 2" for k
    using that by (auto simp: unhealthy_at_def never_ready_engine_def good_engine_def)
  ultimately have "health_ok never_ready_engine"
    unfolding health_ok_def by (intro exI [of _ 2]) simp
  moreover have "status_ok never_ready_engine"
    by (simp add: status_ok_def never_ready_engine_def good_engine_def ok_protobuf_def)
  moreover have "startup_ok never_ready_engine (path_of [Opt_r ''/models''])"
    by (simp add: startup_ok_def path_of_def never_ready_engine_def good_engine_def)
  ultimately show ?thesis by (simp add: boot_ok_def bad_option_def)
qed

lemma never_ready_engine_waits: "model_waiting_at never_ready_engine k"
  by (simp add: model_waiting_at_def model_state_at_def never_ready_engine_def good_engine_def
      ok_protobuf_def status_of_def)

text \<open>
  Claim C1: when the model never reaches the ready state, the wait for it ends after a
  bounded number of attempts with a fatal error. On the engine whose model is loading at
  every status query the program has no outcome: the loop goes on for ever.
\<close>

theorem model_never_ready_hangs:
  "main never_ready_engine 1024 ''simple'' [Opt_r ''/models''] = None"
  by (rule main_hangs) (simp add: never_exits_def never_ready_engine_boots never_ready_engine_waits)

text \<open>
  Claim C7: the process exits with status 0 exactly when every step succeeds, and every
  failure, of readiness too, ends it with status 1 and a diagnostic on the error stream.
  On the engine whose model is loading at every status query not every step succeeds:
  the model never becomes ready. Yet the run has no exit status, neither 1 nor any other,
  and nothing is written to the error stream.
\<close>

theorem never_ready_run_has_no_exit_status:
  "\<not> all_steps_succeed never_ready_engine [Opt_r ''/models'']
   \<and> \<not> model_ok never_ready_engine
   \<and> exit_status (main never_ready_engine 1024 ''simple'' [Opt_r ''/models'']) = None
   \<and> errors_at_exit (main never_ready_engine 1024 ''simple'' [Opt_r ''/models'']) = []"
proof -
  have waits: "\<forall>k. model_waiting_at never_ready_engine k"
    by (simp add: never_ready_engine_waits)
  have never: "never_exits never_ready_engine [Opt_r ''/models'']"
    by (simp add: never_exits_def never_ready_engine_boots never_ready_engine_waits)
  have no_model: "\<not> model_ok never_ready_engine"
    using model_ok_exclusive [of never_ready_engine] waits by blast
  then have "\<not> all_steps_succeed never_ready_engine [Opt_r ''/models'']"
    by (simp add: all_steps_succeed_def)
  moreover have "main never_ready_engine 1024 ''simple'' [Opt_r ''/models''] = None"
    using never by (rule main_hangs)
  ultimately show ?thesis
    using no_model by (simp add: exit_status_def errors_at_exit_def final_state_def)
qed

theorem never_ready_run_has_no_exit_status_witness:
  "model_waiting_at never_ready_engine 0
   \<and> \<not> model_ready_at never_ready_engine 0
   \<and> exit_status (main never_ready_engine 1024 ''simple'' [Opt_r ''/models'']) \<noteq> Some 1
   \<and> errors_at_exit (main never_ready_engine 1024 ''simple'' [Opt_r ''/models'']) = []"
proof -
  have w: "model_waiting_at never_ready_engine 0" by (rule never_ready_engine_waits)
  then have "\<not> model_ready_at never_ready_engine 0"
    using model_ready_not_waiting by blast
  with w never_ready_run_has_no_exit_status show ?thesis by simp
qed

subsection \<open>The request header\<close>

lemma put_varint_not_Nil: "put_varint n \<noteq> []"
  by (subst put_varint.simps) simp

lemma get_put_varint: "get_varint (put_varint n @ rest) = Some (n, rest)"
proof (induction n rule: put_varint.induct)
  case (1 n)
  show ?case
  proof (cases "n < 128")
    case True
    then show ?thesis by (subst put_varint.simps) simp
  next
    case False
    have "(128 + n mod 128) mod 256 = 128 + n mod 128"
      by (rule mod_less) (simp add: add_strict_left_mono [of "n mod 128" 128 128, simplified])
    moreover from False 1 have "get_varint (put_varint (n div 128) @ rest) = Some (n div 128, rest)"
      by simp
    ultimately show ?thesis using False by (subst put_varint.simps) simp
  qed
qed

lemma get_fields_Nil: "get_fields [] = Some []"
  by (subst get_fields.simps) simp

lemma get_fields_uint:
  "get_fields (put_key field 0 @ put_varint v @ rest)
     = map_option ((#) (field, Varint v)) (get_fields rest)"
  by (subst get_fields.simps) (simp add: put_key_def put_varint_not_Nil get_put_varint)

lemma get_fields_bytes:
  "get_fields (put_bytes field b @ rest) = map_option ((#) (field, Bytes b)) (get_fields rest)"
proof -
  define key where "key = 8 * field + 2"
  have k: "key mod 8 = 2" "key div 8 = field" unfolding key_def by presburger+
  show ?thesis
    unfolding put_bytes_def put_key_def key_def [symmetric]
    by (subst get_fields.simps) (simp add: put_varint_not_Nil get_put_varint k)
qed

lemma get_fields_put_uint:
  "get_fields (put_uint field v @ rest)
     = map_option ((@) (if v = 0 then [] else [(field, Varint v)])) (get_fields rest)"
  by (simp add: put_uint_def get_fields_uint option.map_ident option.map_id0 cong: option.map_cong)

lemma get_fields_put_uint_end:
  "get_fields (put_uint field v) = Some (if v = 0 then [] else [(field, Varint v)])"
  using get_fields_put_uint [of field v "[]"] by (simp add: get_fields_Nil)

lemma get_put_name: "get_name (put_name name) = Some name"
  using get_fields_bytes [of 1 name "[]"]
  by (simp add: get_name_def put_name_def get_fields_Nil)

lemma get_fields_names:
  "get_fields (concat (map (\<lambda>name. put_bytes field (put_name name)) names) @ rest)
     = map_option ((@) (map (\<lambda>name. (field, Bytes (put_name name))) names)) (get_fields rest)"
proof (induction names)
  case Nil
  show ?case by (simp add: option.map_ident cong: option.map_cong)
next
  case (Cons name names)
  then show ?case by (simp add: get_fields_bytes option.map_comp comp_def)
qed

lemma merge_inputs:
  "fold merge_field (map (\<lambda>name. (2, Bytes (put_name name))) names) (Some h)
     = Some (h\<lparr>hdr_input := hdr_input h @ names\<rparr>)"
  by (induction names arbitrary: h) (simp_all add: merge_field_def get_put_name add_input_def)

lemma merge_outputs:
  "fold merge_field (map (\<lambda>name. (3, Bytes (put_name name))) names) (Some h)
     = Some (h\<lparr>hdr_output := hdr_output h @ names\<rparr>)"
  by (induction names arbitrary: h) (simp_all add: merge_field_def get_put_name add_output_def)

lemma parse_serialize: "ParseFromString (SerializeToString h) = Some h"
proof -
  have "get_fields (SerializeToString h)
          = Some ((if unat (hdr_batch_size h) = 0 then []
                   else [(1, Varint (unat (hdr_batch_size h)))])
                  @ map (\<lambda>name. (2, Bytes (put_name name))) (hdr_input h)
                  @ map (\<lambda>name. (3, Bytes (put_name name))) (hdr_output h)
                  @ (if unat (hdr_id h) = 0 then [] else [(5, Varint (unat (hdr_id h)))]))"
    by (simp only: SerializeToString_def get_fields_put_uint get_fields_names
          get_fields_put_uint_end append_assoc) simp
  then show ?thesis
    by (simp add: ParseFromString_def merge_inputs merge_outputs merge_field_def empty_header_def
        set_batch_size_def set_id_def unat_eq_0)
qed

text \<open>
  Claim C8: the header that \<open>main\<close> builds has id 123, batch size 1, the inputs
  \<open>INPUT0\<close>, \<open>INPUT1\<close> and the outputs \<open>OUTPUT0\<close>, \<open>OUTPUT1\<close>, in this order, and
  parsing its serialisation gives the same header back; so does parsing the serialisation
  of any header, whatever its id, batch size and names.
\<close>

theorem request_header_round_trip:
  "ParseFromString (SerializeToString request_header) = Some request_header
   \<and> hdr_id request_header = 123 \<and> hdr_batch_size request_header = 1
   \<and> hdr_input request_header = [''INPUT0'', ''INPUT1'']
   \<and> hdr_output request_header = [''OUTPUT0'', ''OUTPUT1'']
   \<and> ParseFromString (SerializeToString h) = Some h"
proof -
  have "hdr_id request_header = 123 \<and> hdr_batch_size request_header = 1
        \<and> hdr_input request_header = [''INPUT0'', ''INPUT1'']
        \<and> hdr_output request_header = [''OUTPUT0'', ''OUTPUT1'']"
    by (simp add: request_header_def add_input_def add_output_def set_id_def set_batch_size_def
        empty_header_def)
  then show ?thesis by (simp add: parse_serialize)
qed

end
